theory Spec2Isabelle
  imports Main
begin

section \<open>Data model\<close>

text \<open>
  The program works on a pandas data frame read from a CSV file. A frame is modelled as
  the list of its rows, in file order, with the eight columns the program expects all
  present. A cell that pandas reads as missing (NaN) is \<open>None\<close>. Text cells are ASCII
  strings; \<open>Content Count\<close> is an integer column. A column in which every cell is
  missing is not a text column for pandas (it is read as float64), which matters where
  the program uses the \<open>.str\<close> accessor.

  \<open>load_data\<close> replaces the text of \<open>Last Updated\<close> by a timestamp, so the type of that
  column is a parameter of the row type: text in the frame as read, a timestamp
  (nanoseconds, as in pandas' \<open>datetime64[ns]\<close>; \<open>None\<close> is NaT) afterwards.
\<close>

record 'ts csv_row =
  Name :: "string option"
  Type :: "string option"
  URL :: "string option"
  Last_Updated :: 'ts
  Last_Edited_By :: "string option"
  Last_Editor_Email :: "string option"
  Folder_Path :: "string option"
  Content_Count :: "int option"

type_synonym raw_row = "string option csv_row"

text \<open>The four columns \<open>load_data\<close> adds.\<close>

record row = "int option csv_row" +
  Days_Since_Update :: "int option"
  Age_Category :: string
  Folder_Level :: "nat option"
  Parent_Folder :: string

text \<open>One entry of the list \<open>ai_archive_suggestions\<close> returns (a dict in the source).\<close>

record suggestion =
  category :: string
  count :: nat
  reason :: string
  confidence :: string
  items :: "string option list"

text \<open>The exceptions the two functions can raise.\<close>

datatype py_error = AttributeError | TypeError

section \<open>load_data\<close>

text \<open>
  \<open>(datetime.now() - df['Last Updated']).dt.days\<close>: the whole days of the difference,
  rounded towards minus infinity, NaN where the timestamp is NaT.
\<close>

definition ns_per_day :: int where
  "ns_per_day = 86400000000000"

definition days_since_update :: "int \<Rightarrow> int option \<Rightarrow> int option" where
  "days_since_update now last_updated =
     (case last_updated of None \<Rightarrow> None | Some t \<Rightarrow> Some ((now - t) div ns_per_day))"

definition categorize_age :: "int option \<Rightarrow> string" where
  "categorize_age days =
     (case days of
        None \<Rightarrow> ''Unknown''
      | Some d \<Rightarrow>
          if d \<le> 30 then ''Recent (0-30 days)''
          else if d \<le> 90 then ''Moderately Old (1-3 months)''
          else if d \<le> 365 then ''Old (3-12 months)''
          else ''Very Old (1+ years)'')"

text \<open>\<open>.str.count('/')\<close>: the number of \<open>/\<close> in a text cell, NaN for a missing cell.\<close>

definition folder_level :: "string option \<Rightarrow> nat option" where
  "folder_level folder_path = map_option (\<lambda>s. length (filter (\<lambda>c. c = CHR ''/'') s)) folder_path"

text \<open>
  \<open>.str.extract(r'(.+)/[^/]+$')\<close> is a regular-expression search: the first start
  position at which the pattern matches, and there the group \<open>(.+)\<close> as long as
  backtracking allows.

  \<open>tail_ok\<close> is \<open>[^/]+$\<close> on the text after the separator: at least one character, none
  of them \<open>/\<close>, up to the end (\<open>[^/]\<close> also takes a line feed, so the end of the text is
  the only place where \<open>$\<close> is reached).
  \<open>try_group k s\<close> tries the group lengths \<open>k\<close>, \<open>k - 1\<close>, ..., \<open>1\<close> at the start of \<open>s\<close>.
  \<open>match_parent\<close> starts from the longest group: \<open>.\<close> takes every character but the line
  feed.
\<close>

definition line_feed :: char where
  "line_feed = CHR 0x0A"

definition tail_ok :: "string \<Rightarrow> bool" where
  "tail_ok r = (r \<noteq> [] \<and> CHR ''/'' \<notin> set r)"

fun try_group :: "nat \<Rightarrow> string \<Rightarrow> string option" where
  "try_group 0 s = None"
| "try_group (Suc k) s =
     (case drop (Suc k) s of
        [] \<Rightarrow> try_group k s
      | c # r \<Rightarrow> if c = CHR ''/'' \<and> tail_ok r then Some (take (Suc k) s) else try_group k s)"

definition match_parent :: "string \<Rightarrow> string option" where
  "match_parent s = try_group (length (takeWhile (\<lambda>c. c \<noteq> line_feed) s)) s"

fun search_parent :: "string \<Rightarrow> string option" where
  "search_parent [] = None"
| "search_parent (c # cs) =
     (case match_parent (c # cs) of Some g \<Rightarrow> Some g | None \<Rightarrow> search_parent cs)"

text \<open>\<open>.fillna('Root')\<close>: a missing cell and a text without a match both give \<open>Root\<close>.\<close>

definition parent_folder :: "string option \<Rightarrow> string" where
  "parent_folder folder_path =
     (case folder_path of
        None \<Rightarrow> ''Root''
      | Some s \<Rightarrow> (case search_parent s of None \<Rightarrow> ''Root'' | Some g \<Rightarrow> g))"

text \<open>
  \<open>pd.to_datetime(df['Last Updated'], errors='coerce')\<close> is a library function that reads
  the column as a whole: it settles on one way of reading the texts (the format, taken
  from the first cell that is not missing) and reads every cell that way, so what a cell
  gives depends on the other cells of its column. It is the parameter \<open>to_datetime\<close>
  of \<open>load_data\<close>; its result is either \<open>Naive parse\<close>, where \<open>parse\<close> reads one text and
  gives \<open>None\<close> (NaT) for a text that does not parse, or \<open>Zone_Aware\<close>, when the
  timestamps carry a time zone. A missing cell is NaT.
\<close>

datatype parsed_column = Zone_Aware | Naive "string \<Rightarrow> int option"

text \<open>
  One row after the column operations of \<open>load_data\<close>, which work cell by cell once the
  column is parsed. \<open>now\<close> is the value \<open>datetime.now()\<close> returns during the call.
\<close>

definition enrich :: "(string \<Rightarrow> int option) \<Rightarrow> int \<Rightarrow> raw_row \<Rightarrow> row" where
  "enrich parse now r =
     (let last_updated = (case Last_Updated r of None \<Rightarrow> None | Some s \<Rightarrow> parse s);
          days = days_since_update now last_updated
      in \<lparr> Name = Name r, Type = Type r, URL = URL r, Last_Updated = last_updated,
           Last_Edited_By = Last_Edited_By r, Last_Editor_Email = Last_Editor_Email r,
           Folder_Path = Folder_Path r, Content_Count = Content_Count r,
           Days_Since_Update = days,
           Age_Category = categorize_age days,
           Folder_Level = folder_level (Folder_Path r),
           Parent_Folder = parent_folder (Folder_Path r) \<rparr>)"

text \<open>
  The argument is the frame \<open>pd.read_csv\<close> returns for the uploaded file, \<open>None\<close> when no
  file was uploaded. The function raises in two places:
  \<^item> \<open>datetime.now() - df['Last Updated']\<close> raises TypeError when the parsed column is
    zone-aware, since \<open>datetime.now()\<close> has no time zone;
  \<^item> \<open>df['Folder Path'].str.count('/')\<close> raises AttributeError when the frame has rows
    and none of them has a folder path, since the column is then not a text column.
  The subtraction comes first in the source.
\<close>

definition load_data ::
  "(string option list \<Rightarrow> parsed_column) \<Rightarrow> int \<Rightarrow> raw_row list option
     \<Rightarrow> py_error + row list option" where
  "load_data to_datetime now uploaded_file =
     (case uploaded_file of
        None \<Rightarrow> Inr None
      | Some df \<Rightarrow>
          (case to_datetime (map Last_Updated df) of
             Zone_Aware \<Rightarrow> Inl TypeError
           | Naive parse \<Rightarrow>
               if df \<noteq> [] \<and> list_all (\<lambda>r. Folder_Path r = None) df
               then Inl AttributeError
               else Inr (Some (map (enrich parse now) df))))"

section \<open>ai_archive_suggestions\<close>

subsection \<open>The name pattern of rule 3\<close>

text \<open>\<open>str.lower()\<close> on ASCII text.\<close>

definition lower_char :: "char \<Rightarrow> char" where
  "lower_char c =
     (let n = (of_char c :: nat) in if 65 \<le> n \<and> n \<le> 90 then char_of (n + 32) else c)"

definition lower :: "string \<Rightarrow> string" where
  "lower s = map lower_char s"

text \<open>\<open>\d\<close> on ASCII text.\<close>

definition is_digit :: "char \<Rightarrow> bool" where
  "is_digit c = (48 \<le> (of_char c :: nat) \<and> (of_char c :: nat) \<le> 57)"

text \<open>
  The matchers below take the text at the current position and return the text after the
  match, \<open>None\<close> when there is no match at this position.
  \<open>lit\<close> matches a literal; \<open>digits\<close> is the greedy \<open>\d+\<close>. Giving digits back cannot help
  either use of \<open>\d+\<close> below: it is followed by nothing, or by \<open>\)\<close>, and a character
  given back is a digit.
\<close>

definition lit :: "string \<Rightarrow> string \<Rightarrow> string option" where
  "lit l s = (if take (length l) s = l then Some (drop (length l) s) else None)"

definition digits :: "string \<Rightarrow> string option" where
  "digits s = (if takeWhile is_digit s = [] then None else Some (dropWhile is_digit s))"

text \<open>The alternatives of \<open>(_copy|_v\d+|\(\d+\)|_final|_draft)\<close>, tried in this order.\<close>

definition match_token :: "string \<Rightarrow> string option" where
  "match_token s =
     (case lit ''_copy'' s of Some r \<Rightarrow> Some r | None \<Rightarrow>
      (case Option.bind (lit ''_v'' s) digits of Some r \<Rightarrow> Some r | None \<Rightarrow>
       (case Option.bind (Option.bind (lit ''('' s) digits) (lit '')'') of Some r \<Rightarrow> Some r | None \<Rightarrow>
        (case lit ''_final'' s of Some r \<Rightarrow> Some r | None \<Rightarrow>
         lit ''_draft'' s))))"

text \<open>
  \<open>re.sub(pattern, '', s)\<close>: scan from the left; at a match, drop it and go on after it;
  otherwise keep the character and go on with the next one.
\<close>

function strip_tokens :: "string \<Rightarrow> string" where
  "strip_tokens [] = []"
| "strip_tokens (c # cs) =
     (case match_token (c # cs) of
        Some r \<Rightarrow> strip_tokens r
      | None \<Rightarrow> c # strip_tokens cs)"
  by pat_completeness auto
termination
proof (relation "measure length")
  show "wf (measure length)" by simp
next
  fix c :: char and cs r :: string
  assume "match_token (c # cs) = Some r"
  moreover have l: "length b \<le> length a - length l" if "lit l a = Some b" for l a b
    using that by (auto simp: lit_def split: if_splits)
  moreover have d: "length b \<le> length a" if "digits a = Some b" for a b
    using that length_dropWhile_le [of is_digit a] by (auto simp: digits_def split: if_splits)
  ultimately have "length r < length (c # cs)"
    unfolding match_token_def
    by (fastforce simp: Option.bind_eq_Some_conv split: option.splits dest!: l d)
  then show "(r, c # cs) \<in> measure length" by simp
next
  fix c :: char and cs :: string
  show "(cs, c # cs) \<in> measure length" by simp
qed

text \<open>
  \<open>\.(pdf|docx?|xlsx?|pptx?)$\<close> at the current position. \<open>extensions\<close> lists what the
  group can match, in the order in which it is tried: \<open>x?\<close> first tries with the \<open>x\<close>.
  \<open>$\<close> holds at the end of the text and before a line feed that ends the text.
\<close>

definition at_end :: "string \<Rightarrow> bool" where
  "at_end s = (s = [] \<or> s = [line_feed])"

fun first_ext :: "string list \<Rightarrow> string \<Rightarrow> string option" where
  "first_ext [] s = None"
| "first_ext (e # es) s =
     (case lit e s of
        Some r \<Rightarrow> if at_end r then Some r else first_ext es s
      | None \<Rightarrow> first_ext es s)"

definition extensions :: "string list" where
  "extensions = [''pdf'', ''docx'', ''doc'', ''xlsx'', ''xls'', ''pptx'', ''ppt'']"

definition match_ext :: "string \<Rightarrow> string option" where
  "match_ext s = Option.bind (lit ''.'' s) (first_ext extensions)"

function strip_ext :: "string \<Rightarrow> string" where
  "strip_ext [] = []"
| "strip_ext (c # cs) =
     (case match_ext (c # cs) of
        Some r \<Rightarrow> strip_ext r
      | None \<Rightarrow> c # strip_ext cs)"
  by pat_completeness auto
termination
proof (relation "measure length")
  show "wf (measure length)" by simp
next
  fix c :: char and cs r :: string
  assume "match_ext (c # cs) = Some r"
  then obtain r' where "lit ''.'' (c # cs) = Some r'" and "at_end r"
    and "length r \<le> length r'"
    by (auto simp: match_ext_def extensions_def Option.bind_eq_Some_conv lit_def
        split: option.splits if_splits)
  then show "(r, c # cs) \<in> measure length"
    by (auto simp: lit_def split: if_splits)
next
  fix c :: char and cs :: string
  show "(cs, c # cs) \<in> measure length" by simp
qed

definition name_pattern :: "string \<Rightarrow> string" where
  "name_pattern name = strip_ext (strip_tokens (lower name))"

subsection \<open>The four rules\<close>

text \<open>
  The source appends to the list \<open>suggestions\<close> rule by rule. Each rule is modelled as
  the list of the entries it appends (none or one), and the result of the function is
  their concatenation in the order of the source.
\<close>

definition rule1 :: "row list \<Rightarrow> suggestion list" where
  "rule1 df =
     (let very_old_files =
            filter (\<lambda>r. Age_Category r = ''Very Old (1+ years)'' \<and> Type r = Some ''File'') df
      in if length very_old_files > 0
         then [\<lparr> category = ''Very Old Files'',
                 count = length very_old_files,
                 reason = ''Files not accessed in over 1 year'',
                 confidence = ''High'',
                 items = take 10 (map Name very_old_files) \<rparr>]
         else [])"

definition rule2 :: "row list \<Rightarrow> suggestion list" where
  "rule2 df =
     (let empty_folders =
            filter (\<lambda>r. Type r = Some ''Folder'' \<and> Content_Count r = Some 0) df
      in if length empty_folders > 0
         then [\<lparr> category = ''Empty Folders'',
                 count = length empty_folders,
                 reason = ''Folders containing no files'',
                 confidence = ''High'',
                 items = map Name empty_folders \<rparr>]
         else [])"

text \<open>
  The loop of rule 3 over the rows of \<open>file_df\<close>, with its two variables: the dict
  \<open>seen_patterns\<close> and the list \<open>duplicate_candidates\<close>. \<open>row['Name'].lower()\<close> raises
  AttributeError on a missing name, which is a float.
\<close>

fun scan_files :: "(string \<rightharpoonup> string) \<Rightarrow> string list \<Rightarrow> row list \<Rightarrow> py_error + string list" where
  "scan_files seen_patterns duplicate_candidates [] = Inr duplicate_candidates"
| "scan_files seen_patterns duplicate_candidates (r # rs) =
     (case Name r of
        None \<Rightarrow> Inl AttributeError
      | Some name \<Rightarrow>
          (case seen_patterns (name_pattern name) of
             Some first_name \<Rightarrow>
               scan_files seen_patterns (duplicate_candidates @ [first_name, name]) rs
           | None \<Rightarrow>
               scan_files (seen_patterns(name_pattern name \<mapsto> name)) duplicate_candidates rs))"

text \<open>
  \<open>list(set(duplicate_candidates))\<close> lists the distinct candidates in the order of Python's
  hash table, which the program does not control. The function that does it is the
  parameter \<open>list_of_set\<close>.
\<close>

definition rule3 :: "(string list \<Rightarrow> string list) \<Rightarrow> row list \<Rightarrow> py_error + suggestion list" where
  "rule3 list_of_set df =
     (let file_df = filter (\<lambda>r. Type r = Some ''File'') df
      in if length file_df > 0
         then (case scan_files Map.empty [] file_df of
                 Inl e \<Rightarrow> Inl e
               | Inr duplicate_candidates \<Rightarrow>
                   Inr (if duplicate_candidates \<noteq> []
                        then [\<lparr> category = ''Potential Duplicates'',
                                count = card (set duplicate_candidates),
                                reason = ''Files with similar names that might be duplicates'',
                                confidence = ''Medium'',
                                items = map Some (take 10 (list_of_set duplicate_candidates)) \<rparr>]
                        else []))
         else Inr [])"

definition rule4 :: "row list \<Rightarrow> suggestion list" where
  "rule4 df =
     (let old_folders =
            filter (\<lambda>r. Type r = Some ''Folder''
                        \<and> Age_Category r \<in> set [''Old (3-12 months)'', ''Very Old (1+ years)'']
                        \<and> (case Content_Count r of None \<Rightarrow> False | Some n \<Rightarrow> n > 10)) df
      in if length old_folders > 0
         then [\<lparr> category = ''Large Old Folders'',
                 count = length old_folders,
                 reason = ''Folders with many files that haven't been updated recently'',
                 confidence = ''Medium'',
                 items = take 5 (map Name old_folders) \<rparr>]
         else [])"

definition ai_archive_suggestions :: "(string list \<Rightarrow> string list) \<Rightarrow> row list \<Rightarrow> py_error + suggestion list" where
  "ai_archive_suggestions list_of_set df =
     (case rule3 list_of_set df of
        Inl e \<Rightarrow> Inl e
      | Inr s3 \<Rightarrow> Inr (rule1 df @ rule2 df @ s3 @ rule4 df))"

section \<open>Rule 3 in the words of the specification\<close>

text \<open>
  The specification describes the candidates of rule 3 without the loop: the files are
  taken in input order, and a file whose name pattern was already seen contributes the
  first earlier name with that pattern and its own name. \<open>spec_collision earlier name\<close>
  is what the file \<open>name\<close> contributes after the files \<open>earlier\<close>, and \<open>spec_candidates\<close>
  collects the contributions of all files. The names of the files are given as a list.
\<close>

definition spec_collision :: "string list \<Rightarrow> string \<Rightarrow> string list" where
  "spec_collision earlier name =
     (case find (\<lambda>n. name_pattern n = name_pattern name) earlier of
        None \<Rightarrow> []
      | Some first_name \<Rightarrow> [first_name, name])"

definition spec_candidates :: "string list \<Rightarrow> string list" where
  "spec_candidates names =
     concat (map (\<lambda>j. spec_collision (take j names) (names ! j)) [0..<length names])"

section \<open>Notions used in the proofs\<close>

text \<open>
  \<open>first_seen earlier\<close> is the content of the dict \<open>seen_patterns\<close> after the files
  \<open>earlier\<close>, \<open>candidates_after earlier names\<close> is what the files \<open>names\<close> contribute when
  they follow the files \<open>earlier\<close>, and \<open>token_start\<close> holds of the two characters a
  suffix token can begin with.
\<close>

definition first_seen :: "string list \<Rightarrow> string \<rightharpoonup> string" where
  "first_seen earlier = (\<lambda>p. find (\<lambda>n. name_pattern n = p) earlier)"

definition candidates_after :: "string list \<Rightarrow> string list \<Rightarrow> string list" where
  "candidates_after earlier names =
     concat (map (\<lambda>j. spec_collision (earlier @ take j names) (names ! j)) [0..<length names])"

definition token_start :: "char \<Rightarrow> bool" where
  "token_start c = (c = CHR ''_'' \<or> c = CHR ''('')"

section \<open>Sample data\<close>

text \<open>
  For the concrete instances below: a reader of one text that knows three dates
  (midnight of 1 January 2024, 1 July 2024 and 1 January 2025, in nanoseconds since 1970)
  and rejects every other text; a stand-in for the column parser that reads a column
  with that reader, unless the column holds a timestamp with a time zone; a clock
  reading (midnight of 1 February 2025); a row builder; a frame of four rows; a row
  with every cell missing, a file in no folder and a file without a name.
\<close>

definition sample_parse :: "string \<Rightarrow> int option" where
  "sample_parse s =
     (if s = ''2024-01-01'' then Some 1704067200000000000
      else if s = ''2024-07-01'' then Some 1719792000000000000
      else if s = ''2025-01-01'' then Some 1735689600000000000
      else None)"

definition sample_to_datetime :: "string option list \<Rightarrow> parsed_column" where
  "sample_to_datetime column =
     (if Some ''2024-01-01T00:00:00Z'' \<in> set column then Zone_Aware else Naive sample_parse)"

definition sample_now :: int where
  "sample_now = 1738368000000000000"

definition sample_row :: "string \<Rightarrow> string \<Rightarrow> string \<Rightarrow> string \<Rightarrow> int \<Rightarrow> raw_row" where
  "sample_row name type last_updated folder_path content_count =
     \<lparr> Name = Some name, Type = Some type, URL = None, Last_Updated = Some last_updated,
       Last_Edited_By = None, Last_Editor_Email = None,
       Folder_Path = Some folder_path, Content_Count = Some content_count \<rparr>"

definition sample_csv :: "raw_row list" where
  "sample_csv =
     [sample_row ''plan_final.docx'' ''File'' ''2024-01-01'' ''Docs/Plans/plan_final.docx'' 0,
      sample_row ''plan_v2.docx'' ''File'' ''2025-01-01'' ''Docs/Plans/plan_v2.docx'' 0,
      sample_row ''Reports'' ''Folder'' ''last week'' ''Reports'' 0,
      sample_row ''Big'' ''Folder'' ''2024-07-01'' ''Docs/Big'' 15]"

definition sample_frame :: "row list" where
  "sample_frame = map (enrich sample_parse sample_now) sample_csv"

definition unnamed_row :: raw_row where
  "unnamed_row =
     \<lparr> Name = None, Type = None, URL = None, Last_Updated = None, Last_Edited_By = None,
       Last_Editor_Email = None, Folder_Path = None, Content_Count = None \<rparr>"

definition top_level_file :: raw_row where
  "top_level_file =
     \<lparr> Name = Some ''a.pdf'', Type = Some ''File'', URL = None,
       Last_Updated = Some ''2024-01-01'', Last_Edited_By = None,
       Last_Editor_Email = None, Folder_Path = None, Content_Count = Some 0 \<rparr>"

definition nameless_file :: raw_row where
  "nameless_file =
     \<lparr> Name = None, Type = Some ''File'', URL = None,
       Last_Updated = Some ''2024-01-01'', Last_Edited_By = None,
       Last_Editor_Email = None, Folder_Path = Some ''Docs/untitled'',
       Content_Count = Some 0 \<rparr>"

text \<open>The names of the two files of the sample frame, and the suggestions for it.\<close>

definition sample_names :: "string list" where
  "sample_names = [''plan_final.docx'', ''plan_v2.docx'']"

definition sample_suggestions :: "suggestion list" where
  "sample_suggestions =
     [\<lparr> category = ''Very Old Files'', count = 1,
         reason = ''Files not accessed in over 1 year'',
         confidence = ''High'', items = [Some ''plan_final.docx''] \<rparr>,
      \<lparr> category = ''Empty Folders'', count = 1,
         reason = ''Folders containing no files'', confidence = ''High'',
         items = [Some ''Reports''] \<rparr>,
      \<lparr> category = ''Potential Duplicates'', count = 2,
         reason = ''Files with similar names that might be duplicates'',
         confidence = ''Medium'',
         items = [Some ''plan_final.docx'', Some ''plan_v2.docx''] \<rparr>,
      \<lparr> category = ''Large Old Folders'', count = 1,
         reason = ''Folders with many files that haven't been updated recently'',
         confidence = ''Medium'', items = [Some ''Big''] \<rparr>]"

section \<open>When load_data returns\<close>

lemma load_data_Zone_Aware:
  assumes "to_datetime (map Last_Updated df) = Zone_Aware"
  shows "load_data to_datetime now (Some df) = Inl TypeError"
  using assms by (simp add: load_data_def)

lemma load_data_Naive:
  assumes "to_datetime (map Last_Updated df) = Naive parse"
  shows "load_data to_datetime now (Some df) =
           (if df \<noteq> [] \<and> list_all (\<lambda>r. Folder_Path r = None) df
            then Inl AttributeError
            else Inr (Some (map (enrich parse now) df)))"
  using assms by (simp add: load_data_def)

lemma load_data_returns:
  assumes "load_data to_datetime now (Some df) = Inr (Some out)"
  obtains parse where "to_datetime (map Last_Updated df) = Naive parse"
    and "out = map (enrich parse now) df"
    and "df = [] \<or> \<not> list_all (\<lambda>r. Folder_Path r = None) df"
proof (cases "to_datetime (map Last_Updated df)")
  case Zone_Aware
  with assms show ?thesis by (simp add: load_data_Zone_Aware)
next
  case (Naive parse)
  with assms that [of parse] show ?thesis
    by (simp add: load_data_Naive split: if_splits)
qed


lemma enrich_passthrough:
  "Name (enrich parse now r) = Name r"
  "Type (enrich parse now r) = Type r"
  "URL (enrich parse now r) = URL r"
  "Last_Edited_By (enrich parse now r) = Last_Edited_By r"
  "Last_Editor_Email (enrich parse now r) = Last_Editor_Email r"
  "Folder_Path (enrich parse now r) = Folder_Path r"
  "Content_Count (enrich parse now r) = Content_Count r"
  by (simp_all add: enrich_def Let_def)


lemma sample_column_naive:
  assumes "Some ''2024-01-01T00:00:00Z'' \<notin> set column"
  shows "sample_to_datetime column = Naive sample_parse"
  using assms by (simp add: sample_to_datetime_def)

lemma sample_csv_column:
  "sample_to_datetime (map Last_Updated sample_csv) = Naive sample_parse"
  by (rule sample_column_naive) (simp add: sample_csv_def sample_row_def)

lemma sample_load_data:
  "load_data sample_to_datetime sample_now (Some sample_csv) = Inr (Some sample_frame)"
  using sample_csv_column
  by (simp add: load_data_def sample_frame_def) (simp add: sample_csv_def sample_row_def)

section \<open>Age categories\<close>

text \<open>
  Claim C1. The age category of every row \<open>load_data\<close> returns is \<open>categorize_age\<close> of that
  row's day count and of nothing else, and \<open>categorize_age\<close> follows the thresholds: no
  day count gives Unknown, at most 30 days Recent, more than 30 and at most 90
  Moderately Old, more than 90 and at most 365 Old, more than 365 Very Old. The
  boundaries 30, 90 and 365 fall in the lower category, 366 is Very Old, and a negative
  day count is Recent; a timestamp after the clock reading gives such a negative count.
\<close>

theorem categorize_age_thresholds:
  "categorize_age None = ''Unknown''
   \<and> (d1 \<le> 30 \<longrightarrow> categorize_age (Some d1) = ''Recent (0-30 days)'')
   \<and> (30 < d2 \<and> d2 \<le> 90 \<longrightarrow> categorize_age (Some d2) = ''Moderately Old (1-3 months)'')
   \<and> (90 < d3 \<and> d3 \<le> 365 \<longrightarrow> categorize_age (Some d3) = ''Old (3-12 months)'')
   \<and> (365 < d4 \<longrightarrow> categorize_age (Some d4) = ''Very Old (1+ years)'')
   \<and> categorize_age (Some 30) = ''Recent (0-30 days)''
   \<and> categorize_age (Some 90) = ''Moderately Old (1-3 months)''
   \<and> categorize_age (Some 365) = ''Old (3-12 months)''
   \<and> categorize_age (Some 366) = ''Very Old (1+ years)''
   \<and> (d5 < 0 \<longrightarrow> categorize_age (Some d5) = ''Recent (0-30 days)'')
   \<and> (clock < t \<longrightarrow>
        (\<exists>d. days_since_update clock (Some t) = Some d \<and> d < 0
           \<and> categorize_age (Some d) = ''Recent (0-30 days)''))
   \<and> (load_data to_datetime now (Some df) = Inr (Some out) \<longrightarrow>
        (\<forall>r \<in> set out. Age_Category r = categorize_age (Days_Since_Update r)))"
proof -
  have "(clock - t) div ns_per_day < 0" if "clock < t"
    using that by (simp add: ns_per_day_def pos_imp_zdiv_neg_iff)
  then have "\<exists>d. days_since_update clock (Some t) = Some d \<and> d < 0
           \<and> categorize_age (Some d) = ''Recent (0-30 days)''" if "clock < t"
    using that by (simp add: days_since_update_def categorize_age_def)
  moreover have "Age_Category r = categorize_age (Days_Since_Update r)"
    if "load_data to_datetime now (Some df) = Inr (Some out)" "r \<in> set out" for r
    using that by (elim load_data_returns) (auto simp: enrich_def Let_def)
  ultimately show ?thesis
    by (simp add: categorize_age_def)
qed

theorem categorize_age_thresholds_witness:
  "(7::int) \<le> 30 \<and> categorize_age (Some 7) = ''Recent (0-30 days)''
   \<and> (30::int) < 45 \<and> (45::int) \<le> 90 \<and> categorize_age (Some 45) = ''Moderately Old (1-3 months)''
   \<and> (90::int) < 200 \<and> (200::int) \<le> 365 \<and> categorize_age (Some 200) = ''Old (3-12 months)''
   \<and> (365::int) < 400 \<and> categorize_age (Some 400) = ''Very Old (1+ years)''
   \<and> (-3::int) < 0 \<and> categorize_age (Some (-3)) = ''Recent (0-30 days)''
   \<and> (0::int) < 1704067200000000000
   \<and> days_since_update 0 (Some 1704067200000000000) = Some (-19723)
   \<and> load_data sample_to_datetime sample_now (Some sample_csv) = Inr (Some sample_frame)
   \<and> sample_frame \<noteq> []
   \<and> list_all (\<lambda>r. Age_Category r = categorize_age (Days_Since_Update r)) sample_frame"
proof -
  note t = categorize_age_thresholds [of 7 45 200 400 "-3" 0 1704067200000000000
      sample_to_datetime sample_now sample_csv sample_frame]
  have ev: "(7::int) \<le> 30 \<and> categorize_age (Some 7) = ''Recent (0-30 days)''
   \<and> (30::int) < 45 \<and> (45::int) \<le> 90 \<and> categorize_age (Some 45) = ''Moderately Old (1-3 months)''
   \<and> (90::int) < 200 \<and> (200::int) \<le> 365 \<and> categorize_age (Some 200) = ''Old (3-12 months)''
   \<and> (365::int) < 400 \<and> categorize_age (Some 400) = ''Very Old (1+ years)''
   \<and> (-3::int) < 0 \<and> categorize_age (Some (-3)) = ''Recent (0-30 days)''
   \<and> (0::int) < 1704067200000000000
   \<and> days_since_update 0 (Some 1704067200000000000) = Some (-19723)"
    by code_simp
  have ne: "sample_frame \<noteq> []"
    by (simp add: sample_frame_def sample_csv_def)
  from t sample_load_data
  have "\<forall>r \<in> set sample_frame. Age_Category r = categorize_age (Days_Since_Update r)"
    by blast
  then have "list_all (\<lambda>r. Age_Category r = categorize_age (Days_Since_Update r)) sample_frame"
    by (simp only: list_all_iff)
  with ev sample_load_data ne show ?thesis
    by (simp only: simp_thms)
qed

section \<open>The enrichment is a map over the rows\<close>

text \<open>
  Whenever \<open>load_data\<close> returns a frame, it has the rows of the input, one for one and in
  the same order, with the cells that were read from the file unchanged.
\<close>

lemma load_data_one_to_one:
  assumes "load_data to_datetime now (Some df) = Inr (Some out)"
  shows "length out = length df
      \<and> (\<forall>i < length df.
            Name (out ! i) = Name (df ! i)
          \<and> Type (out ! i) = Type (df ! i)
          \<and> URL (out ! i) = URL (df ! i)
          \<and> Last_Edited_By (out ! i) = Last_Edited_By (df ! i)
          \<and> Last_Editor_Email (out ! i) = Last_Editor_Email (df ! i)
          \<and> Folder_Path (out ! i) = Folder_Path (df ! i)
          \<and> Content_Count (out ! i) = Content_Count (df ! i))"
  using assms by (elim load_data_returns) (simp add: enrich_passthrough)

lemma load_data_without_folder_path:
  assumes "to_datetime (map Last_Updated df) = Naive parse"
    and "df \<noteq> []" and "\<forall>r \<in> set df. Folder_Path r = None"
  shows "load_data to_datetime now (Some df) = Inl AttributeError"
  using assms by (simp add: load_data_Naive list_all_iff)

text \<open>
  Claim C4 says that every input gives an output of the same length and order.
  \<open>load_data\<close> does not return for every input. On a frame whose only row is a file in
  no folder, with a name, a type and a date that parses, it raises AttributeError: no cell
  of the folder path column is a text, and line 47 uses \<open>.str\<close> on it, while line 48
  provides for missing folder paths with \<open>fillna('Root')\<close>. On a frame with a date that
  carries a time zone it raises TypeError at line 29.
\<close>

theorem load_data_fails_on_top_level_file:
  "load_data sample_to_datetime sample_now (Some [top_level_file]) = Inl AttributeError
   \<and> load_data sample_to_datetime sample_now
        (Some [sample_row ''a.pdf'' ''File'' ''2024-01-01T00:00:00Z'' ''Docs/a.pdf'' 0])
      = Inl TypeError"
  by code_simp

text \<open>
  Claim C5 says that a row without a name or a type, or with a type other than File and
  Folder, makes the enrichment fail for the whole batch. \<open>load_data\<close> has no such check:
  on a frame with a row whose cells are all missing and a row of type Shortcut it
  returns both rows enriched.
\<close>

theorem load_data_validation_counterexample:
  "load_data sample_to_datetime sample_now
     (Some [unnamed_row, sample_row ''link'' ''Shortcut'' ''2025-01-01'' ''Docs/link'' 0])
   = Inr (Some [\<lparr> Name = None, Type = None, URL = None, Last_Updated = None,
              Last_Edited_By = None, Last_Editor_Email = None, Folder_Path = None,
              Content_Count = None, Days_Since_Update = None, Age_Category = ''Unknown'',
              Folder_Level = None, Parent_Folder = ''Root'' \<rparr>,
            \<lparr> Name = Some ''link'', Type = Some ''Shortcut'', URL = None,
              Last_Updated = Some 1735689600000000000,
              Last_Edited_By = None, Last_Editor_Email = None,
              Folder_Path = Some ''Docs/link'', Content_Count = Some 0,
              Days_Since_Update = Some 31, Age_Category = ''Moderately Old (1-3 months)'',
              Folder_Level = Some 1, Parent_Folder = ''Docs'' \<rparr>])"
  by code_simp

text \<open>
  Claim C5 as amended. \<open>load_data\<close> looks at neither the name nor the type. Two frames
  with the same dates and the same folder paths, whatever their names and types are,
  missing ones included, either raise the same exception or both return; and a frame
  that is returned has, row by row, the names and the types of the input.
\<close>

theorem load_data_ignores_name_and_type:
  assumes "map Last_Updated df = map Last_Updated df'"
    and "map Folder_Path df = map Folder_Path df'"
  shows "(\<forall>e. load_data to_datetime now (Some df) = Inl e
              \<longleftrightarrow> load_data to_datetime now (Some df') = Inl e)
       \<and> ((\<exists>out. load_data to_datetime now (Some df) = Inr (Some out))
              \<longleftrightarrow> (\<exists>out'. load_data to_datetime now (Some df') = Inr (Some out')))
       \<and> (\<forall>out. load_data to_datetime now (Some df) = Inr (Some out) \<longrightarrow>
              length out = length df \<and> map Name out = map Name df
            \<and> map Type out = map Type df)"
proof -
  from assms(1) have len: "length df = length df'"
    by (rule map_eq_imp_length_eq)
  then have ne: "df \<noteq> [] \<longleftrightarrow> df' \<noteq> []" by auto
  have "list_all (\<lambda>r. Folder_Path r = None) d
      \<longleftrightarrow> list_all (\<lambda>c. c = None) (map Folder_Path d)" for d :: "raw_row list"
    by (simp add: list_all_iff)
  with assms(2) have fp: "list_all (\<lambda>r. Folder_Path r = None) df
      \<longleftrightarrow> list_all (\<lambda>r. Folder_Path r = None) df'"
    by simp
  have names: "length out = length df \<and> map Name out = map Name df \<and> map Type out = map Type df"
    if "load_data to_datetime now (Some df) = Inr (Some out)" for out
    using that by (elim load_data_returns) (simp add: enrich_passthrough)
  show ?thesis
  proof (cases "to_datetime (map Last_Updated df)")
    case Zone_Aware
    then have "load_data to_datetime now (Some df) = Inl TypeError"
      "load_data to_datetime now (Some df') = Inl TypeError"
      using assms(1) by (simp_all add: load_data_Zone_Aware)
    with names show ?thesis by simp
  next
    case (Naive parse)
    then have "to_datetime (map Last_Updated df') = Naive parse"
      using assms(1) by simp
    from load_data_Naive [where to_datetime = to_datetime and df = df, OF Naive, of now]
      load_data_Naive [where to_datetime = to_datetime and df = df', OF this, of now]
      ne fp names
    show ?thesis by (auto split: if_splits)
  qed
qed

theorem load_data_ignores_name_and_type_witness:
  "map Last_Updated [unnamed_row, sample_row ''link'' ''Shortcut'' ''2025-01-01'' ''Docs/link'' 0]
     = map Last_Updated
         [unnamed_row \<lparr> Name := Some ''notes.txt'', Type := Some ''File'' \<rparr>,
          sample_row ''Links'' ''Folder'' ''2025-01-01'' ''Docs/link'' 7]
   \<and> map Folder_Path [unnamed_row, sample_row ''link'' ''Shortcut'' ''2025-01-01'' ''Docs/link'' 0]
     = map Folder_Path
         [unnamed_row \<lparr> Name := Some ''notes.txt'', Type := Some ''File'' \<rparr>,
          sample_row ''Links'' ''Folder'' ''2025-01-01'' ''Docs/link'' 7]
   \<and> (\<exists>out. load_data sample_to_datetime sample_now
              (Some [unnamed_row, sample_row ''link'' ''Shortcut'' ''2025-01-01'' ''Docs/link'' 0])
            = Inr (Some out)
          \<and> map Name out = [None, Some ''link'']
          \<and> map Type out = [None, Some ''Shortcut''])
   \<and> (\<exists>out'. load_data sample_to_datetime sample_now
              (Some [unnamed_row \<lparr> Name := Some ''notes.txt'', Type := Some ''File'' \<rparr>,
                     sample_row ''Links'' ''Folder'' ''2025-01-01'' ''Docs/link'' 7])
            = Inr (Some out'))"
proof -
  let ?df = "[unnamed_row, sample_row ''link'' ''Shortcut'' ''2025-01-01'' ''Docs/link'' 0]"
  let ?df' = "[unnamed_row \<lparr> Name := Some ''notes.txt'', Type := Some ''File'' \<rparr>,
          sample_row ''Links'' ''Folder'' ''2025-01-01'' ''Docs/link'' 7]"
  have 1: "map Last_Updated ?df = map Last_Updated ?df'"
    by (simp add: unnamed_row_def sample_row_def)
  have 2: "map Folder_Path ?df = map Folder_Path ?df'"
    by (simp add: unnamed_row_def sample_row_def)
  note t = load_data_ignores_name_and_type [OF 1 2, of sample_to_datetime sample_now]
  have "sample_to_datetime (map Last_Updated ?df) = Naive sample_parse"
    by (rule sample_column_naive) (simp add: unnamed_row_def sample_row_def)
  then have run: "load_data sample_to_datetime sample_now (Some ?df)
      = Inr (Some (map (enrich sample_parse sample_now) ?df))"
    by (simp add: load_data_Naive unnamed_row_def sample_row_def)
  with t have "map Name (map (enrich sample_parse sample_now) ?df) = map Name ?df"
    "map Type (map (enrich sample_parse sample_now) ?df) = map Type ?df"
    by blast+
  then have 3: "\<exists>out. load_data sample_to_datetime sample_now (Some ?df) = Inr (Some out)
          \<and> map Name out = [None, Some ''link'']
          \<and> map Type out = [None, Some ''Shortcut'']"
    using run by (simp add: unnamed_row_def sample_row_def)
  from t run have 4: "\<exists>out'. load_data sample_to_datetime sample_now (Some ?df') = Inr (Some out')"
    by blast
  show ?thesis
    by (rule conjI [OF 1 conjI [OF 2 conjI [OF 3 4]]])
qed

section \<open>Two runs\<close>




section \<open>A date that does not parse\<close>



section \<open>The entries of the suggestion list\<close>

lemma rule1_entry:
  assumes "g \<in> set (rule1 df)"
  shows "category g = ''Very Old Files''" and "confidence g = ''High''"
  using assms by (simp_all add: rule1_def Let_def split: if_splits)

lemma rule2_entry:
  assumes "g \<in> set (rule2 df)"
  shows "category g = ''Empty Folders''" and "confidence g = ''High''"
  using assms by (simp_all add: rule2_def Let_def split: if_splits)

lemma rule3_entry:
  assumes "rule3 list_of_set df = Inr s3" and "g \<in> set s3"
  shows "category g = ''Potential Duplicates''" and "confidence g = ''Medium''"
  using assms by (auto simp: rule3_def Let_def split: if_splits sum.splits)

lemma rule4_entry:
  assumes "g \<in> set (rule4 df)"
  shows "category g = ''Large Old Folders''" and "confidence g = ''Medium''"
  using assms by (simp_all add: rule4_def Let_def split: if_splits)

lemma ai_archive_suggestions_Inr:
  assumes "ai_archive_suggestions list_of_set df = Inr gs"
  obtains s3 where "rule3 list_of_set df = Inr s3" and "gs = rule1 df @ rule2 df @ s3 @ rule4 df"
  using assms by (auto simp: ai_archive_suggestions_def split: sum.splits)

text \<open>
  Claim C10. Every entry of a list \<open>ai_archive_suggestions\<close> returns has the confidence
  High or Medium, never Low, and its category is one of Very Old Files, Empty Folders,
  Potential Duplicates and Large Old Folders.
\<close>

theorem suggestion_confidence_category:
  assumes "ai_archive_suggestions list_of_set df = Inr gs" and "g \<in> set gs"
  shows "(confidence g = ''High'' \<or> confidence g = ''Medium'')
       \<and> confidence g \<noteq> ''Low''
       \<and> category g \<in> {''Very Old Files'', ''Empty Folders'', ''Potential Duplicates'',
             ''Large Old Folders''}"
proof -
  from assms(1) obtain s3 where s3: "rule3 list_of_set df = Inr s3"
    and gs: "gs = rule1 df @ rule2 df @ s3 @ rule4 df"
    by (rule ai_archive_suggestions_Inr)
  from assms(2) gs consider "g \<in> set (rule1 df)" | "g \<in> set (rule2 df)" | "g \<in> set s3"
    | "g \<in> set (rule4 df)"
    by auto
  then have "(category g = ''Very Old Files'' \<and> confidence g = ''High'')
      \<or> (category g = ''Empty Folders'' \<and> confidence g = ''High'')
      \<or> (category g = ''Potential Duplicates'' \<and> confidence g = ''Medium'')
      \<or> (category g = ''Large Old Folders'' \<and> confidence g = ''Medium'')"
    using rule1_entry rule2_entry rule3_entry [OF s3] rule4_entry by cases blast+
  moreover have "''High'' \<noteq> ''Low''" "''Medium'' \<noteq> ''Low''"
    by simp_all
  ultimately show ?thesis
    by (elim disjE conjE) simp_all
qed

theorem suggestion_confidence_category_witness:
  "ai_archive_suggestions remdups sample_frame = Inr sample_suggestions
   \<and> sample_suggestions ! 2 \<in> set sample_suggestions
   \<and> category (sample_suggestions ! 2) = ''Potential Duplicates''
   \<and> confidence (sample_suggestions ! 2) = ''Medium''
   \<and> confidence (sample_suggestions ! 2) \<noteq> ''Low''"
proof -
  have run: "ai_archive_suggestions remdups sample_frame = Inr sample_suggestions"
    by code_simp
  have m: "sample_suggestions ! 2 \<in> set sample_suggestions"
    by code_simp
  have ev: "category (sample_suggestions ! 2) = ''Potential Duplicates''"
    "confidence (sample_suggestions ! 2) = ''Medium''"
    by code_simp+
  from suggestion_confidence_category [OF run m]
  have "confidence (sample_suggestions ! 2) \<noteq> ''Low''" by (elim conjE)
  with run m ev show ?thesis by (intro conjI)
qed

section \<open>Folder level and parent folder\<close>

lemma try_group_no_sep:
  "CHR ''/'' \<notin> set t \<Longrightarrow> try_group k t = None"
proof (induction k)
  case 0
  show ?case by simp
next
  case (Suc k)
  have "c \<noteq> CHR ''/''" if "drop (Suc k) t = c # r" for c r
  proof -
    have "c \<in> set (drop (Suc k) t)" using that by simp
    then have "c \<in> set t" by (rule in_set_dropD)
    with Suc.prems show ?thesis by auto
  qed
  with Suc show ?case by (auto split: list.splits)
qed

lemma try_group_trailing_sep:
  "try_group k (p @ ''/'') = None"
proof (induction k)
  case 0
  show ?case by simp
next
  case (Suc k)
  have "\<not> tail_ok r" if "drop (Suc k) (p @ ''/'') = c # r" for c r
  proof (cases "r = []")
    case True
    then show ?thesis by (simp add: tail_ok_def)
  next
    case False
    have "r = drop (Suc (Suc k)) (p @ ''/'')"
      using that by (metis drop_Suc tl_drop list.sel(3))
    moreover from this False have "Suc (Suc k) < length (p @ ''/'')"
      by (metis drop_eq_Nil not_le)
    ultimately have "last r = last (p @ ''/'')"
      by (simp only: last_drop)
    then have "last r = CHR ''/''" by simp
    with False have "CHR ''/'' \<in> set r" using last_in_set by metis
    then show ?thesis by (simp add: tail_ok_def)
  qed
  with Suc show ?case by (auto split: list.splits)
qed

lemma try_group_last_sep:
  assumes "tail_ok post"
  shows "try_group k (p @ CHR ''/'' # post) = (if p \<noteq> [] \<and> length p \<le> k then Some p else None)"
proof (induction k)
  case 0
  show ?case by simp
next
  case (Suc k)
  let ?t = "p @ CHR ''/'' # post"
  have hit: "(\<exists>r. drop (Suc k) ?t = CHR ''/'' # r \<and> tail_ok r) \<longleftrightarrow> Suc k = length p"
  proof
    assume "\<exists>r. drop (Suc k) ?t = CHR ''/'' # r \<and> tail_ok r"
    then obtain r where r: "drop (Suc k) ?t = CHR ''/'' # r" and ok: "tail_ok r" by blast
    show "Suc k = length p"
    proof (rule ccontr)
      assume ne: "Suc k \<noteq> length p"
      show False
      proof (cases "Suc k < length p")
        case True
        then have "drop (Suc k) ?t = drop (Suc k) p @ CHR ''/'' # post" by simp
        moreover from True have "drop (Suc k) p \<noteq> []" by simp
        ultimately have "CHR ''/'' \<in> set r" using r
          by (cases "drop (Suc k) p") auto
        with ok show False by (simp add: tail_ok_def)
      next
        case False
        with ne have "length p < Suc k" by simp
        then have "Suc k - length p = Suc (k - length p)"
          by simp
        with \<open>length p < Suc k\<close> have "drop (Suc k) ?t = drop (k - length p) post"
          by simp
        with r have "CHR ''/'' # r = drop (k - length p) post" by simp
        then have "CHR ''/'' \<in> set (drop (k - length p) post)"
          by (metis list.set_intros(1))
        then have "CHR ''/'' \<in> set post" by (rule in_set_dropD)
        with assms show False by (simp add: tail_ok_def)
      qed
    qed
  next
    assume "Suc k = length p"
    with assms show "\<exists>r. drop (Suc k) ?t = CHR ''/'' # r \<and> tail_ok r" by simp
  qed
  show ?case
  proof (cases "Suc k = length p")
    case True
    then have d: "drop (Suc k) ?t = CHR ''/'' # post" and t: "take (Suc k) ?t = p"
      by simp_all
    have "try_group (Suc k) ?t = Some (take (Suc k) ?t)"
      unfolding try_group.simps d using assms by simp
    also have "\<dots> = Some p" by (simp only: t)
    finally show ?thesis using True by auto
  next
    case False
    with hit have "\<not> (\<exists>r. drop (Suc k) ?t = CHR ''/'' # r \<and> tail_ok r)" by simp
    then have "try_group (Suc k) ?t = try_group k ?t"
      by (auto split: list.splits)
    with Suc False show ?thesis by auto
  qed
qed


lemma match_parent_no_sep: "CHR ''/'' \<notin> set t \<Longrightarrow> match_parent t = None"
  by (simp add: match_parent_def try_group_no_sep)

lemma search_parent_no_sep: "CHR ''/'' \<notin> set t \<Longrightarrow> search_parent t = None"
  by (induction t) (simp_all add: match_parent_no_sep)

lemma search_parent_trailing_sep: "search_parent (p @ ''/'') = None"
proof (induction p)
  case Nil
  show ?case by (simp add: match_parent_def tail_ok_def)
next
  case (Cons c p)
  have "match_parent ((c # p) @ ''/'') = None"
    unfolding match_parent_def by (rule try_group_trailing_sep)
  with Cons show ?case by simp
qed

lemma takeWhile_whole:
  "length (takeWhile P p) = length p \<longleftrightarrow> (\<forall>x \<in> set p. P x)"
proof (induction p)
  case Nil
  show ?case by simp
next
  case (Cons a p)
  have "length (takeWhile P p) \<le> length p" by (rule length_takeWhile_le)
  with Cons show ?case by auto
qed

lemma takeWhile_full_length:
  "length p \<le> length (takeWhile P (p @ q)) \<longleftrightarrow> (\<forall>x \<in> set p. P x)"
proof (cases "\<forall>x \<in> set p. P x")
  case True
  then show ?thesis by (simp add: takeWhile_append2)
next
  case False
  then obtain x where x: "x \<in> set p" "\<not> P x" by blast
  then have "takeWhile P (p @ q) = takeWhile P p" by (simp add: takeWhile_append1)
  moreover have "length (takeWhile P p) \<noteq> length p"
    using False by (simp add: takeWhile_whole)
  moreover have "length (takeWhile P p) \<le> length p"
    by (rule length_takeWhile_le)
  ultimately show ?thesis using False by simp
qed

lemma match_parent_last_sep:
  assumes "tail_ok post"
  shows "match_parent (p @ CHR ''/'' # post) =
           (if p \<noteq> [] \<and> line_feed \<notin> set p then Some p else None)"
proof -
  have "length p \<le> length (takeWhile (\<lambda>c. c \<noteq> line_feed) (p @ CHR ''/'' # post))
          \<longleftrightarrow> line_feed \<notin> set p"
    by (subst takeWhile_full_length) auto
  then show ?thesis
    by (simp add: match_parent_def try_group_last_sep [OF assms])
qed

lemma search_parent_last_sep:
  assumes "tail_ok post" and "q = [] \<or> last q = line_feed" and "line_feed \<notin> set g"
  shows "search_parent (q @ g @ CHR ''/'' # post) = (if g = [] then None else Some g)"
  using assms(2)
proof (induction q)
  case Nil
  show ?case
  proof (cases g)
    case Nil
    from assms(1) have "search_parent post = None"
      by (intro search_parent_no_sep) (simp add: tail_ok_def)
    moreover have "match_parent ([] @ CHR ''/'' # post) = None"
      by (subst match_parent_last_sep [OF assms(1)]) simp
    ultimately show ?thesis using Nil by simp
  next
    case (Cons c cs)
    have "match_parent (g @ CHR ''/'' # post) = Some g"
      using assms(3) Cons by (subst match_parent_last_sep [OF assms(1)]) simp
    then have "search_parent ([] @ (c # cs) @ CHR ''/'' # post) = Some g"
      unfolding Cons by simp
    with Cons show ?thesis by simp
  qed
next
  case (Cons c q)
  have lf: "line_feed \<in> set ((c # q) @ g)"
  proof -
    from Cons.prems have "last (c # q) = line_feed" by simp
    then have "line_feed \<in> set (c # q)" using last_in_set [of "c # q"] by simp
    then show ?thesis by auto
  qed
  have "match_parent (((c # q) @ g) @ CHR ''/'' # post) = None"
    using lf by (subst match_parent_last_sep [OF assms(1)]) simp
  then have step: "search_parent ((c # q) @ g @ CHR ''/'' # post)
      = search_parent (q @ g @ CHR ''/'' # post)"
    by simp
  show ?case
  proof (cases "q = []")
    case True
    then show ?thesis using step Cons.IH by simp
  next
    case False
    with Cons.prems have "last q = line_feed" by simp
    with Cons.IH step show ?thesis by simp
  qed
qed


lemma folder_level_count:
  "folder_level (Some s) = Some (count_list s (CHR ''/''))"
  by (induction s) (simp_all add: folder_level_def)

text \<open>
  Claim C7 says that the parent folder is Root exactly when the folder path is empty or
  has no separator. \<open>Archive/\<close> and \<open>/notes.txt\<close> have a separator and their parent
  folder is Root: the pattern wants at least one character on each side of the
  separator.
\<close>

theorem parent_folder_separator_counterexample:
  "CHR ''/'' \<in> set ''Archive/'' \<and> parent_folder (Some ''Archive/'') = ''Root''
   \<and> CHR ''/'' \<in> set ''/notes.txt'' \<and> parent_folder (Some ''/notes.txt'') = ''Root''"
  by code_simp

text \<open>
  Claim C7 as amended. The folder level of a folder path is the number of \<open>/\<close> in it, 0
  when there is none; a missing folder path has no folder level. The parent folder is the
  text before the last \<open>/\<close> of the folder path when that \<open>/\<close> has at least one character
  after it and at least one character before it; a line feed before the last \<open>/\<close> cuts
  the text off, only what follows the last such line feed is kept. The parent folder is
  Root in every other case: the folder path is missing, has no \<open>/\<close>, ends with \<open>/\<close>, or
  nothing, or a line feed, stands just before its last \<open>/\<close>.
\<close>

theorem folder_level_and_parent_folder:
  "folder_level (Some s) = Some (count_list s (CHR ''/''))
   \<and> folder_level None = None
   \<and> parent_folder None = ''Root''
   \<and> (CHR ''/'' \<notin> set s0 \<longrightarrow>
        folder_level (Some s0) = Some 0 \<and> parent_folder (Some s0) = ''Root'')
   \<and> parent_folder (Some (p @ ''/'')) = ''Root''
   \<and> (post \<noteq> [] \<and> CHR ''/'' \<notin> set post \<and> (q = [] \<or> last q = line_feed)
        \<and> line_feed \<notin> set g \<longrightarrow>
        parent_folder (Some (q @ g @ CHR ''/'' # post)) = (if g = [] then ''Root'' else g))"
proof -
  have "folder_level (Some s0) = Some 0" if "CHR ''/'' \<notin> set s0"
    using that by (simp add: folder_level_count)
  moreover have "parent_folder (Some s0) = ''Root''" if "CHR ''/'' \<notin> set s0"
    using that by (simp add: parent_folder_def search_parent_no_sep)
  moreover have "parent_folder (Some (p @ ''/'')) = ''Root''"
    by (simp only: parent_folder_def search_parent_trailing_sep option.case)
  moreover have "parent_folder (Some (q @ g @ CHR ''/'' # post)) = (if g = [] then ''Root'' else g)"
    if "post \<noteq> []" "CHR ''/'' \<notin> set post" "q = [] \<or> last q = line_feed" "line_feed \<notin> set g"
  proof -
    from that have "tail_ok post" by (simp add: tail_ok_def)
    from search_parent_last_sep [OF this that(3,4)] show ?thesis
      by (simp add: parent_folder_def)
  qed
  moreover have "folder_level None = None" "parent_folder None = ''Root''"
    by (simp_all add: folder_level_def parent_folder_def)
  ultimately show ?thesis
    using folder_level_count [of s] by blast
qed

theorem folder_level_and_parent_folder_witness:
  "folder_level (Some ''Docs/Plans/plan.docx'') = Some 2
   \<and> CHR ''/'' \<notin> set ''Reports''
   \<and> folder_level (Some ''Reports'') = Some 0 \<and> parent_folder (Some ''Reports'') = ''Root''
   \<and> parent_folder (Some ''Archive/'') = ''Root''
   \<and> ''plan.docx'' \<noteq> [] \<and> CHR ''/'' \<notin> set ''plan.docx'' \<and> line_feed \<notin> set ''Docs/Plans''
   \<and> parent_folder (Some ''Docs/Plans/plan.docx'') = ''Docs/Plans''"
  using folder_level_and_parent_folder [of "''Docs/Plans/plan.docx''" "''Reports''" "''Archive''"
      "''plan.docx''" "[]" "''Docs/Plans''"]
  by (simp add: line_feed_def)

section \<open>The loop of rule 3\<close>

lemma find_snoc:
  "find P (xs @ [x]) = (case find P xs of None \<Rightarrow> (if P x then Some x else None) | Some y \<Rightarrow> Some y)"
  by (induction xs) simp_all

lemma first_seen_snoc:
  "first_seen (earlier @ [n]) =
     (case first_seen earlier (name_pattern n) of
        None \<Rightarrow> (first_seen earlier)(name_pattern n \<mapsto> n)
      | Some first_name \<Rightarrow> first_seen earlier)"
proof (rule ext)
  fix p
  show "first_seen (earlier @ [n]) p =
     (case first_seen earlier (name_pattern n) of
        None \<Rightarrow> (first_seen earlier)(name_pattern n \<mapsto> n)
      | Some first_name \<Rightarrow> first_seen earlier) p"
    by (cases "p = name_pattern n")
      (auto simp: first_seen_def find_snoc split: option.splits)
qed

lemma candidates_after_Nil: "candidates_after earlier [] = []"
  by (simp add: candidates_after_def)

lemma candidates_after_Cons:
  "candidates_after earlier (n # ns) = spec_collision earlier n @ candidates_after (earlier @ [n]) ns"
  by (simp add: candidates_after_def map_upt_Suc del: upt_Suc)

lemma scan_files_candidates:
  assumes "map Name fs = map Some names"
  shows "scan_files (first_seen earlier) acc fs = Inr (acc @ candidates_after earlier names)"
  using assms
proof (induction fs arbitrary: names earlier acc)
  case Nil
  then show ?case by (simp add: candidates_after_Nil)
next
  case (Cons r fs)
  then obtain n ns where names: "names = n # ns" and n: "Name r = Some n"
    and ns: "map Name fs = map Some ns"
    by (cases names) auto
  show ?case
  proof (cases "first_seen earlier (name_pattern n)")
    case None
    then have seen: "(first_seen earlier)(name_pattern n \<mapsto> n) = first_seen (earlier @ [n])"
      by (simp add: first_seen_snoc)
    from None have col: "spec_collision earlier n = []"
      by (simp add: spec_collision_def first_seen_def)
    have "scan_files (first_seen earlier) acc (r # fs)
        = scan_files ((first_seen earlier)(name_pattern n \<mapsto> n)) acc fs"
      using None n by simp
    also have "\<dots> = Inr (acc @ candidates_after (earlier @ [n]) ns)"
      unfolding seen by (rule Cons.IH [OF ns])
    finally show ?thesis
      by (simp add: names candidates_after_Cons col)
  next
    case (Some f)
    then have seen: "first_seen earlier = first_seen (earlier @ [n])"
      by (simp add: first_seen_snoc)
    from Some have col: "spec_collision earlier n = [f, n]"
      by (simp add: spec_collision_def first_seen_def)
    have "scan_files (first_seen earlier) acc (r # fs)
        = scan_files (first_seen earlier) (acc @ [f, n]) fs"
      using Some n by simp
    also have "\<dots> = scan_files (first_seen (earlier @ [n])) (acc @ [f, n]) fs"
      using seen by simp
    also have "\<dots> = Inr ((acc @ [f, n]) @ candidates_after (earlier @ [n]) ns)"
      by (rule Cons.IH [OF ns])
    finally show ?thesis
      by (simp add: names candidates_after_Cons col)
  qed
qed

lemma scan_files_spec:
  assumes "map Name fs = map Some names"
  shows "scan_files Map.empty [] fs = Inr (spec_candidates names)"
proof -
  have "first_seen [] = Map.empty" by (simp add: first_seen_def)
  moreover have "candidates_after [] names = spec_candidates names"
    by (simp add: candidates_after_def spec_candidates_def)
  ultimately show ?thesis
    using scan_files_candidates [OF assms, of "[]" "[]"] by simp
qed

lemma spec_collision_empty:
  "spec_collision earlier n = [] \<longleftrightarrow> name_pattern n \<notin> name_pattern ` set earlier"
proof -
  have "spec_collision earlier n = []
      \<longleftrightarrow> find (\<lambda>m. name_pattern m = name_pattern n) earlier = None"
    by (simp add: spec_collision_def split: option.splits)
  also have "\<dots> \<longleftrightarrow> \<not> (\<exists>m. m \<in> set earlier \<and> name_pattern m = name_pattern n)"
    by (simp only: find_None_iff)
  also have "\<dots> \<longleftrightarrow> name_pattern n \<notin> name_pattern ` set earlier"
    by (metis (no_types, lifting) image_iff)
  finally show ?thesis .
qed

lemma spec_candidates_empty:
  "spec_candidates names = [] \<longleftrightarrow> distinct (map name_pattern names)"
proof -
  have "spec_candidates names = [] \<longleftrightarrow>
      (\<forall>j < length names. name_pattern (names ! j) \<notin> name_pattern ` set (take j names))"
    by (auto simp: spec_candidates_def spec_collision_empty)
  also have "\<dots> \<longleftrightarrow> distinct (map name_pattern names)"
  proof (induction names rule: rev_induct)
    case Nil
    show ?case by simp
  next
    case (snoc n names)
    have "(\<forall>j < length (names @ [n]). name_pattern ((names @ [n]) ! j)
             \<notin> name_pattern ` set (take j (names @ [n])))
        \<longleftrightarrow> (\<forall>j < length names. name_pattern (names ! j) \<notin> name_pattern ` set (take j names))
            \<and> name_pattern n \<notin> name_pattern ` set names"
      by (auto simp: less_Suc_eq nth_append)
    with snoc show ?case by auto
  qed
  finally show ?thesis .
qed


lemma lit_Some_iff: "lit l s = Some r \<longleftrightarrow> s = l @ r"
  by (auto simp: lit_def) (metis append_take_drop_id)

lemma lit_append:
  assumes "x \<noteq> []" and "hd x \<notin> set (if s = [] then l else tl l)" and "l \<noteq> []"
  shows "lit l (s @ x) = map_option (\<lambda>r. r @ x) (lit l s)"
proof (cases "lit l s")
  case (Some r)
  then have "s = l @ r" by (simp add: lit_Some_iff)
  then have "lit l (s @ x) = Some (r @ x)" by (simp add: lit_Some_iff)
  with Some show ?thesis by simp
next
  case None
  have "lit l (s @ x) = None"
  proof (rule ccontr)
    assume "lit l (s @ x) \<noteq> None"
    then obtain r where "s @ x = l @ r" by (auto simp: lit_Some_iff)
    then obtain us where us: "(s = l @ us \<and> us @ x = r) \<or> (s @ us = l \<and> x = us @ r)"
      by (auto simp: append_eq_append_conv2)
    from None have no: "s \<noteq> l @ us" for us by (metis lit_Some_iff option.distinct(1))
    with us have l: "s @ us = l" and x: "x = us @ r" by auto
    from l no [of "[]"] have "us \<noteq> []" by auto
    with x have "hd x = hd us" by simp
    with \<open>us \<noteq> []\<close> l have "hd x \<in> set (if s = [] then l else tl l)"
      by (cases s) auto
    with assms(2) show False by simp
  qed
  with None show ?thesis by simp
qed

lemma digits_append:
  assumes "x \<noteq> []" and "\<not> is_digit (hd x)"
  shows "digits (s @ x) = map_option (\<lambda>r. r @ x) (digits s)"
proof -
  from assms have x: "takeWhile is_digit x = []" "dropWhile is_digit x = x"
    by (cases x; simp)+
  show ?thesis
  proof (cases "\<forall>c \<in> set s. is_digit c")
    case True
    then have "takeWhile is_digit (s @ x) = s" "dropWhile is_digit (s @ x) = x"
      and s: "takeWhile is_digit s = s" "dropWhile is_digit s = []"
      using x by (simp_all add: takeWhile_append2 dropWhile_append2)
    then have "digits (s @ x) = (if s = [] then None else Some x)"
      by (simp add: digits_def)
    moreover have "digits s = (if s = [] then None else Some [])"
      unfolding digits_def s by simp
    ultimately show ?thesis by simp
  next
    case False
    then obtain c where "c \<in> set s" "\<not> is_digit c" by blast
    then have "takeWhile is_digit (s @ x) = takeWhile is_digit s"
      "dropWhile is_digit (s @ x) = dropWhile is_digit s @ x"
      by (simp_all add: takeWhile_append1 dropWhile_append1)
    then show ?thesis by (simp add: digits_def)
  qed
qed

lemma token_start_not_digit: "token_start c \<Longrightarrow> \<not> is_digit c"
  by (auto simp: token_start_def is_digit_def)

lemma match_token_append:
  assumes "x \<noteq> []" and "token_start (hd x)" and "s \<noteq> []"
  shows "match_token (s @ x) = map_option (\<lambda>r. r @ x) (match_token s)"
proof -
  have nd: "\<not> is_digit (hd x)" using assms(2) by (rule token_start_not_digit)
  have h: "hd x = CHR ''_'' \<or> hd x = CHR ''(''" using assms(2) by (simp add: token_start_def)
  have 1: "lit ''_copy'' (s @ x) = map_option (\<lambda>r. r @ x) (lit ''_copy'' s)"
    using assms h by (intro lit_append) auto
  have 2: "lit ''_v'' (s @ x) = map_option (\<lambda>r. r @ x) (lit ''_v'' s)"
    using assms h by (intro lit_append) auto
  have 3: "lit ''('' (s @ x) = map_option (\<lambda>r. r @ x) (lit ''('' s)"
    using assms h by (intro lit_append) auto
  have 4: "lit ''_final'' (s @ x) = map_option (\<lambda>r. r @ x) (lit ''_final'' s)"
    using assms h by (intro lit_append) auto
  have 5: "lit ''_draft'' (s @ x) = map_option (\<lambda>r. r @ x) (lit ''_draft'' s)"
    using assms h by (intro lit_append) auto
  have 6: "lit '')'' (r @ x) = map_option (\<lambda>r. r @ x) (lit '')'' r)" for r
    using assms h by (intro lit_append) auto
  have d: "digits (r @ x) = map_option (\<lambda>r. r @ x) (digits r)" for r
    using assms(1) nd by (rule digits_append)
  show ?thesis
    unfolding match_token_def 1 2 3 4 5
    by (cases "lit ''_copy'' s"; cases "lit ''_v'' s"; cases "lit ''('' s";
        cases "lit ''_final'' s"; cases "lit ''_draft'' s")
      (auto simp: d 6 split: option.splits Option.bind_splits)
qed

lemma strip_tokens_append:
  assumes "x = [] \<or> token_start (hd x)"
  shows "strip_tokens (s @ x) = strip_tokens s @ strip_tokens x"
proof (cases "x = []")
  case True
  then show ?thesis by simp
next
  case False
  with assms have st: "token_start (hd x)" by simp
  show ?thesis
  proof (induction s rule: strip_tokens.induct)
    case 1
    show ?case by simp
  next
    case (2 c cs)
    have m: "match_token ((c # cs) @ x) = map_option (\<lambda>r. r @ x) (match_token (c # cs))"
      using False st by (intro match_token_append) simp_all
    show ?case
    proof (cases "match_token (c # cs)")
      case None
      with m have "match_token (c # cs @ x) = None" by simp
      with None 2 show ?thesis by simp
    next
      case (Some r)
      with m have "match_token (c # cs @ x) = Some (r @ x)" by simp
      with Some 2 show ?thesis by simp
    qed
  qed
qed

section \<open>The name pattern\<close>

lemma lit_Nil: "lit [] s = Some s"
  by (simp add: lit_def)

lemma lit_Cons_Cons: "lit (a # l) (c # cs) = (if a = c then lit l cs else None)"
  by (simp add: lit_def)

lemma digits_run:
  assumes "ds \<noteq> []" and "list_all is_digit ds" and "b = [] \<or> \<not> is_digit (hd b)"
  shows "digits (ds @ b) = Some b"
proof -
  from assms(3) have "takeWhile is_digit b = []" "dropWhile is_digit b = b"
    by (cases b; simp)+
  with assms(2) have "takeWhile is_digit (ds @ b) = ds" "dropWhile is_digit (ds @ b) = b"
    by (simp_all add: list_all_iff takeWhile_append2 dropWhile_append2)
  with assms(1) show ?thesis by (simp add: digits_def)
qed

lemma match_token_literal:
  "match_token (''_copy'' @ b) = Some b"
  "match_token (''_final'' @ b) = Some b"
  "match_token (''_draft'' @ b) = Some b"
  by (simp_all add: match_token_def lit_Nil lit_Cons_Cons)


lemma match_token_version:
  assumes "ds \<noteq> []" and "list_all is_digit ds" and "b = [] \<or> \<not> is_digit (hd b)"
  shows "match_token (''_v'' @ ds @ b) = Some b"
  by (simp add: match_token_def lit_Nil lit_Cons_Cons digits_run [OF assms])

lemma match_token_numbered:
  assumes "ds \<noteq> []" and "list_all is_digit ds"
  shows "match_token (''('' @ ds @ '')'' @ b) = Some b"
proof -
  have "digits (ds @ '')'' @ b) = Some ('')'' @ b)"
    using assms by (intro digits_run) (simp_all add: is_digit_def)
  then show ?thesis
    by (simp add: match_token_def lit_Nil lit_Cons_Cons)
qed

lemma strip_tokens_token:
  assumes "match_token (t @ b) = Some b" and "t \<noteq> []" and "token_start (hd t)"
  shows "strip_tokens (a @ t @ b) = strip_tokens a @ strip_tokens b"
proof -
  from assms(2,3) have "strip_tokens (a @ t @ b) = strip_tokens a @ strip_tokens (t @ b)"
    by (intro strip_tokens_append) simp
  moreover from assms(2) obtain c cs where "t @ b = c # cs" by (cases t) auto
  with assms(1) have "strip_tokens (t @ b) = strip_tokens b" by simp
  ultimately show ?thesis by simp
qed

lemma match_token_other_start:
  assumes "c \<noteq> CHR ''_''" and "c \<noteq> CHR ''(''"
  shows "match_token (c # cs) = None"
  using assms by (simp add: match_token_def lit_Cons_Cons)

lemma strip_tokens_plain:
  "CHR ''_'' \<notin> set s \<Longrightarrow> CHR ''('' \<notin> set s \<Longrightarrow> strip_tokens s = s"
proof (induction s rule: strip_tokens.induct)
  case 1
  show ?case by simp
next
  case (2 c cs)
  then have "c \<noteq> CHR ''_''" "c \<noteq> CHR ''(''" by auto
  then have "match_token (c # cs) = None"
    by (rule match_token_other_start)
  with 2 show ?case by simp
qed


lemma first_ext_Some:
  "first_ext es s = Some r \<Longrightarrow> \<exists>e \<in> set es. s = e @ r \<and> at_end r"
proof (induction es)
  case Nil
  then show ?case by simp
next
  case (Cons e es)
  show ?case
  proof (cases "lit e s")
    case None
    with Cons show ?thesis by auto
  next
    case (Some r')
    then have s: "s = e @ r'" by (simp add: lit_Some_iff)
    show ?thesis
    proof (cases "at_end r'")
      case True
      with Some Cons.prems have "r = r'" by simp
      with s True show ?thesis by auto
    next
      case False
      with Some Cons show ?thesis by auto
    qed
  qed
qed

lemma match_ext_Some:
  assumes "match_ext u = Some r"
  shows "\<exists>e \<in> set extensions. u = ''.'' @ e @ r \<and> at_end r"
proof -
  from assms obtain v where v: "lit ''.'' u = Some v"
    and f: "first_ext extensions v = Some r"
    unfolding match_ext_def by (cases "lit ''.'' u") auto
  from first_ext_Some [OF f] obtain e where "e \<in> set extensions" "v = e @ r" "at_end r"
    by blast
  moreover from v have "u = ''.'' @ v" by (simp only: lit_Some_iff)
  ultimately show ?thesis by auto
qed

lemma extension_letters_all:
  "\<forall>e \<in> set extensions. CHR ''.'' \<notin> set e \<and> e \<noteq> [] \<and> last e \<noteq> line_feed"
  by code_simp

lemma strip_ext_only_all:
  "\<forall>e \<in> set extensions. strip_ext (''.'' @ e) = []"
  by code_simp


lemma strip_ext_trailing:
  assumes "e \<in> set extensions"
  shows "strip_ext (s @ ''.'' @ e) = s"
proof (induction s)
  case Nil
  show ?case using strip_ext_only_all assms by simp
next
  case (Cons c s)
  from extension_letters_all assms
  have e: "CHR ''.'' \<notin> set e" "e \<noteq> []" "last e \<noteq> line_feed" by blast+
  have "match_ext (c # s @ ''.'' @ e) = None"
  proof (rule ccontr)
    assume "match_ext (c # s @ ''.'' @ e) \<noteq> None"
    then obtain r where "match_ext (c # s @ ''.'' @ e) = Some r" by auto
    from match_ext_Some [OF this] obtain e' where e': "e' \<in> set extensions"
      and eq: "c # s @ ''.'' @ e = ''.'' @ e' @ r" and r: "at_end r" by blast
    have "last (c # s @ ''.'' @ e) = last e"
      using e(2) by simp
    with eq e(3) have "last (''.'' @ e' @ r) \<noteq> line_feed"
      by simp
    with r have "r = []" by (auto simp: at_end_def)
    with eq have "s @ ''.'' @ e = e'" by simp
    then have "CHR ''.'' \<in> set e'" by (metis in_set_conv_decomp append_Cons append_Nil)
    moreover from extension_letters_all e' have "CHR ''.'' \<notin> set e'" by blast
    ultimately show False by simp
  qed
  with Cons show ?case by simp
qed

lemma match_ext_other_start:
  assumes "c \<noteq> CHR ''.''"
  shows "match_ext (c # cs) = None"
  using assms by (simp add: match_ext_def lit_Cons_Cons)

lemma strip_ext_plain: "CHR ''.'' \<notin> set s \<Longrightarrow> strip_ext s = s"
proof (induction s)
  case Nil
  show ?case by simp
next
  case (Cons c s)
  then have "match_ext (c # s) = None" by (intro match_ext_other_start) auto
  with Cons show ?case by simp
qed

section \<open>What the four rules return\<close>

lemma rule1_eq:
  "rule1 df =
     (if filter (\<lambda>r. Age_Category r = ''Very Old (1+ years)'' \<and> Type r = Some ''File'') df = []
      then []
      else [\<lparr> category = ''Very Old Files'',
              count = length (filter (\<lambda>r. Age_Category r = ''Very Old (1+ years)''
                                          \<and> Type r = Some ''File'') df),
              reason = ''Files not accessed in over 1 year'',
              confidence = ''High'',
              items = take 10 (map Name (filter (\<lambda>r. Age_Category r = ''Very Old (1+ years)''
                                                    \<and> Type r = Some ''File'') df)) \<rparr>])"
  by (simp add: rule1_def Let_def)

lemma rule2_eq:
  "rule2 df =
     (if filter (\<lambda>r. Type r = Some ''Folder'' \<and> Content_Count r = Some 0) df = []
      then []
      else [\<lparr> category = ''Empty Folders'',
              count = length (filter (\<lambda>r. Type r = Some ''Folder'' \<and> Content_Count r = Some 0) df),
              reason = ''Folders containing no files'',
              confidence = ''High'',
              items = map Name (filter (\<lambda>r. Type r = Some ''Folder''
                                            \<and> Content_Count r = Some 0) df) \<rparr>])"
  by (simp add: rule2_def Let_def)

lemma rule4_eq:
  "rule4 df =
     (if filter (\<lambda>r. Type r = Some ''Folder''
                    \<and> Age_Category r \<in> set [''Old (3-12 months)'', ''Very Old (1+ years)'']
                    \<and> (case Content_Count r of None \<Rightarrow> False | Some n \<Rightarrow> n > 10)) df = []
      then []
      else [\<lparr> category = ''Large Old Folders'',
              count = length (filter (\<lambda>r. Type r = Some ''Folder''
                    \<and> Age_Category r \<in> set [''Old (3-12 months)'', ''Very Old (1+ years)'']
                    \<and> (case Content_Count r of None \<Rightarrow> False | Some n \<Rightarrow> n > 10)) df),
              reason = ''Folders with many files that haven't been updated recently'',
              confidence = ''Medium'',
              items = take 5 (map Name (filter (\<lambda>r. Type r = Some ''Folder''
                    \<and> Age_Category r \<in> set [''Old (3-12 months)'', ''Very Old (1+ years)'']
                    \<and> (case Content_Count r of None \<Rightarrow> False | Some n \<Rightarrow> n > 10)) df)) \<rparr>])"
  by (simp only: rule4_def Let_def length_greater_0_conv if_not_P if_P split: if_splits) simp

lemma rule3_scan:
  assumes "scan_files Map.empty [] (filter (\<lambda>r. Type r = Some ''File'') df) = Inr dc"
  shows "rule3 list_of_set df =
     Inr (if dc = [] then []
          else [\<lparr> category = ''Potential Duplicates'',
                  count = card (set dc),
                  reason = ''Files with similar names that might be duplicates'',
                  confidence = ''Medium'',
                  items = map Some (take 10 (list_of_set dc)) \<rparr>])"
proof (cases "filter (\<lambda>r. Type r = Some ''File'') df = []")
  case True
  with assms have "dc = []" by simp
  with True show ?thesis by (simp add: rule3_def)
next
  case False
  with assms show ?thesis by (simp add: rule3_def)
qed

lemma rule3_Inr_scan:
  assumes "rule3 list_of_set df = Inr s3"
  obtains dc where "scan_files Map.empty [] (filter (\<lambda>r. Type r = Some ''File'') df) = Inr dc"
proof (cases "filter (\<lambda>r. Type r = Some ''File'') df = []")
  case True
  then have "scan_files Map.empty [] (filter (\<lambda>r. Type r = Some ''File'') df) = Inr []"
    by simp
  then show ?thesis by (rule that)
next
  case False
  with assms obtain dc where
    "scan_files Map.empty [] (filter (\<lambda>r. Type r = Some ''File'') df) = Inr dc"
    by (cases "scan_files Map.empty [] (filter (\<lambda>r. Type r = Some ''File'') df)")
      (simp_all add: rule3_def)
  then show ?thesis by (rule that)
qed

lemma rule3_spec:
  assumes "map Name (filter (\<lambda>r. Type r = Some ''File'') df) = map Some names"
  shows "rule3 list_of_set df =
     Inr (if spec_candidates names = [] then []
          else [\<lparr> category = ''Potential Duplicates'',
                  count = card (set (spec_candidates names)),
                  reason = ''Files with similar names that might be duplicates'',
                  confidence = ''Medium'',
                  items = map Some (take 10 (list_of_set (spec_candidates names))) \<rparr>])"
  by (rule rule3_scan) (rule scan_files_spec [OF assms])

lemma capped_listing:
  assumes "\<forall>xs. set (list_of_set xs) = set xs \<and> distinct (list_of_set xs)"
  shows "length (take k (list_of_set dc)) = min k (card (set dc))"
    and "set (take k (list_of_set dc)) \<subseteq> set dc"
    and "distinct (take k (list_of_set dc))"
proof -
  from assms have s: "set (list_of_set dc) = set dc" and d: "distinct (list_of_set dc)"
    by blast+
  from d have "length (list_of_set dc) = card (set (list_of_set dc))"
    by (simp add: distinct_card)
  with s show "length (take k (list_of_set dc)) = min k (card (set dc))"
    by (simp add: min.commute)
  from s show "set (take k (list_of_set dc)) \<subseteq> set dc"
    using set_take_subset [of k "list_of_set dc"] by simp
  from d show "distinct (take k (list_of_set dc))" by simp
qed

lemma rule1_categories:
  "map category (rule1 df) =
     (if \<exists>r \<in> set df. Age_Category r = ''Very Old (1+ years)'' \<and> Type r = Some ''File''
      then [''Very Old Files''] else [])"
  by (simp add: rule1_eq filter_empty_conv)

lemma rule2_categories:
  "map category (rule2 df) =
     (if \<exists>r \<in> set df. Type r = Some ''Folder'' \<and> Content_Count r = Some 0
      then [''Empty Folders''] else [])"
  by (simp add: rule2_eq filter_empty_conv)

lemma rule4_categories:
  "map category (rule4 df) =
     (if \<exists>r \<in> set df. Type r = Some ''Folder''
            \<and> Age_Category r \<in> set [''Old (3-12 months)'', ''Very Old (1+ years)'']
            \<and> (case Content_Count r of None \<Rightarrow> False | Some n \<Rightarrow> n > 10)
      then [''Large Old Folders''] else [])"
  by (simp only: rule4_eq filter_empty_conv) auto

lemma other_rules_not_duplicates:
  "filter (\<lambda>g. category g = ''Potential Duplicates'') (rule1 df) = []"
  "filter (\<lambda>g. category g = ''Potential Duplicates'') (rule2 df) = []"
  "filter (\<lambda>g. category g = ''Potential Duplicates'') (rule4 df) = []"
  by (simp_all add: rule1_eq rule2_eq rule4_eq)

lemma sample_suggestions_run:
  "ai_archive_suggestions remdups sample_frame = Inr sample_suggestions"
  by code_simp

lemma sample_file_names:
  "map Name (filter (\<lambda>r. Type r = Some ''File'') sample_frame) = map Some sample_names"
  by code_simp

lemma sample_candidates:
  "spec_candidates sample_names = [''plan_final.docx'', ''plan_v2.docx'']"
  by code_simp

lemma sample_candidates_listing:
  "card (set [''plan_final.docx'', ''plan_v2.docx'']) = 2"
  "take 10 (remdups [''plan_final.docx'', ''plan_v2.docx''])
     = [''plan_final.docx'', ''plan_v2.docx'']"
  by code_simp+

lemma remdups_lists_set: "\<forall>xs. set (remdups xs) = set xs \<and> distinct (remdups xs)"
  by simp

text \<open>
  Claim C2. Rule 3 looks at the rows of type File only, in input order. With their names
  \<open>names\<close>, the entry of category Potential Duplicates in the result is there exactly when
  two files share a name pattern; its candidates are those of the specification (every
  file whose pattern was seen before adds the first name seen with that pattern and its
  own name), its count is the number of distinct candidates, its items are at most 10 of
  them, each a candidate and none twice, and its confidence is Medium. The name pattern
  is the lower-cased name with the suffix tokens removed and then one trailing extension
  stripped: each occurrence of \<open>_copy\<close>, \<open>_final\<close>, \<open>_draft\<close>, \<open>(digits)\<close> and \<open>_v digits\<close>
  goes (the last with all the digits that follow it), a text without \<open>_\<close> and \<open>(\<close> stays as
  it is, a trailing \<open>.\<close> and extension go once, and a text without \<open>.\<close> stays as it is.
  \<open>list_of_set\<close> lists a collection without repetition, as \<open>list(set(_))\<close> does.
\<close>

theorem potential_duplicates_rule:
  assumes "\<forall>xs. set (list_of_set xs) = set xs \<and> distinct (list_of_set xs)"
    and "map Name (filter (\<lambda>r. Type r = Some ''File'') df) = map Some names"
  shows "(\<exists>gs. ai_archive_suggestions list_of_set df = Inr gs
          \<and> filter (\<lambda>g. category g = ''Potential Duplicates'') gs =
              (if spec_candidates names = [] then []
               else [\<lparr> category = ''Potential Duplicates'',
                       count = card (set (spec_candidates names)),
                       reason = ''Files with similar names that might be duplicates'',
                       confidence = ''Medium'',
                       items = map Some (take 10 (list_of_set (spec_candidates names))) \<rparr>]))
    \<and> length (take 10 (list_of_set (spec_candidates names)))
        = min 10 (card (set (spec_candidates names)))
    \<and> set (take 10 (list_of_set (spec_candidates names))) \<subseteq> set (spec_candidates names)
    \<and> distinct (take 10 (list_of_set (spec_candidates names)))
    \<and> (spec_candidates names = [] \<longleftrightarrow> distinct (map name_pattern names))
    \<and> name_pattern name = strip_ext (strip_tokens (lower name))
    \<and> (t \<in> set [''_copy'', ''_final'', ''_draft''] \<longrightarrow>
          strip_tokens (a @ t @ b) = strip_tokens a @ strip_tokens b)
    \<and> (ds \<noteq> [] \<and> list_all is_digit ds \<longrightarrow>
          strip_tokens (a @ ''('' @ ds @ '')'' @ b) = strip_tokens a @ strip_tokens b)
    \<and> (ds \<noteq> [] \<and> list_all is_digit ds \<and> (b = [] \<or> \<not> is_digit (hd b)) \<longrightarrow>
          strip_tokens (a @ ''_v'' @ ds @ b) = strip_tokens a @ strip_tokens b)
    \<and> (CHR ''_'' \<notin> set s \<and> CHR ''('' \<notin> set s \<longrightarrow> strip_tokens s = s)
    \<and> (e \<in> set extensions \<longrightarrow> strip_ext (s @ ''.'' @ e) = s)
    \<and> (CHR ''.'' \<notin> set s \<longrightarrow> strip_ext s = s)"
proof -
  let ?c = "spec_candidates names"
  let ?s3 = "if ?c = [] then []
          else [\<lparr> category = ''Potential Duplicates'',
                  count = card (set ?c),
                  reason = ''Files with similar names that might be duplicates'',
                  confidence = ''Medium'',
                  items = map Some (take 10 (list_of_set ?c)) \<rparr>]"
  have r3: "rule3 list_of_set df = Inr ?s3"
    by (rule rule3_spec [OF assms(2)])
  then have ai: "ai_archive_suggestions list_of_set df = Inr (rule1 df @ rule2 df @ ?s3 @ rule4 df)"
    by (simp only: ai_archive_suggestions_def sum.case)
  have "filter (\<lambda>g. category g = ''Potential Duplicates'') (rule1 df @ rule2 df @ ?s3 @ rule4 df)
      = ?s3"
    by (simp add: other_rules_not_duplicates)
  with ai have group: "\<exists>gs. ai_archive_suggestions list_of_set df = Inr gs
          \<and> filter (\<lambda>g. category g = ''Potential Duplicates'') gs = ?s3"
    by simp
  have lit3: "strip_tokens (a @ t @ b) = strip_tokens a @ strip_tokens b"
    if "t \<in> set [''_copy'', ''_final'', ''_draft'']"
  proof -
    from that have "match_token (t @ b) = Some b" "t \<noteq> []" "token_start (hd t)"
      using match_token_literal [of b] by (auto simp: token_start_def)
    then show ?thesis by (rule strip_tokens_token)
  qed
  have num: "strip_tokens (a @ ''('' @ ds @ '')'' @ b) = strip_tokens a @ strip_tokens b"
    if "ds \<noteq> []" "list_all is_digit ds"
  proof -
    have "strip_tokens (a @ (''('' @ ds @ '')'') @ b) = strip_tokens a @ strip_tokens b"
      using match_token_numbered [OF that, of b]
      by (intro strip_tokens_token) (simp_all add: token_start_def)
    then show ?thesis by simp
  qed
  have ver: "strip_tokens (a @ ''_v'' @ ds @ b) = strip_tokens a @ strip_tokens b"
    if "ds \<noteq> []" "list_all is_digit ds" "b = [] \<or> \<not> is_digit (hd b)"
  proof -
    have "strip_tokens (a @ (''_v'' @ ds) @ b) = strip_tokens a @ strip_tokens b"
      using match_token_version [OF that]
      by (intro strip_tokens_token) (simp_all add: token_start_def)
    then show ?thesis by simp
  qed
  show ?thesis
    using group capped_listing [OF assms(1), of 10 ?c] spec_candidates_empty [of names]
      lit3 num ver strip_ext_trailing [of e s] strip_tokens_plain [of s] strip_ext_plain [of s]
    unfolding name_pattern_def by blast
qed

theorem potential_duplicates_rule_witness:
  "(\<forall>xs. set (remdups xs) = set xs \<and> distinct (remdups xs))
   \<and> map Name (filter (\<lambda>r. Type r = Some ''File'') sample_frame) = map Some sample_names
   \<and> (\<exists>gs. ai_archive_suggestions remdups sample_frame = Inr gs
         \<and> filter (\<lambda>g. category g = ''Potential Duplicates'') gs =
             [\<lparr> category = ''Potential Duplicates'', count = 2,
                 reason = ''Files with similar names that might be duplicates'',
                 confidence = ''Medium'',
                 items = [Some ''plan_final.docx'', Some ''plan_v2.docx''] \<rparr>])
   \<and> (name_pattern ''Plan_Final.DOCX'' = ''plan''
      \<and> name_pattern ''plan_final.docx'' = name_pattern ''plan_v2.docx''
      \<and> ''_final'' \<in> set [''_copy'', ''_final'', ''_draft'']
      \<and> strip_tokens (''plan'' @ ''_final'' @ ''.docx'') = ''plan.docx''
      \<and> ''12'' \<noteq> [] \<and> list_all is_digit ''12'' \<and> \<not> is_digit (hd ''.docx'')
      \<and> strip_tokens (''plan'' @ ''('' @ ''12'' @ '')'' @ ''.docx'') = ''plan.docx''
      \<and> strip_tokens (''plan'' @ ''_v'' @ ''12'' @ ''.docx'') = ''plan.docx''
      \<and> CHR ''_'' \<notin> set ''plan'' \<and> CHR ''('' \<notin> set ''plan'' \<and> strip_tokens ''plan'' = ''plan''
      \<and> ''docx'' \<in> set extensions \<and> strip_ext (''plan'' @ ''.'' @ ''docx'') = ''plan''
      \<and> CHR ''.'' \<notin> set ''plan'' \<and> strip_ext ''plan'' = ''plan'')"
proof -
  note t = potential_duplicates_rule [OF remdups_lists_set sample_file_names,
      where name = "''Plan_Final.DOCX''" and t = "''_final''" and a = "''plan''"
        and b = "''.docx''" and ds = "''12''" and s = "''plan''" and e = "''docx''"]
  from t [THEN conjunct1] have g: "\<exists>gs. ai_archive_suggestions remdups sample_frame = Inr gs
         \<and> filter (\<lambda>g. category g = ''Potential Duplicates'') gs =
             [\<lparr> category = ''Potential Duplicates'', count = 2,
                 reason = ''Files with similar names that might be duplicates'',
                 confidence = ''Medium'',
                 items = [Some ''plan_final.docx'', Some ''plan_v2.docx''] \<rparr>]"
    unfolding sample_candidates
    by (simp only: sample_candidates_listing list.distinct list.map if_False)
  have ev: "name_pattern ''Plan_Final.DOCX'' = ''plan''
      \<and> name_pattern ''plan_final.docx'' = name_pattern ''plan_v2.docx''
      \<and> ''_final'' \<in> set [''_copy'', ''_final'', ''_draft'']
      \<and> strip_tokens (''plan'' @ ''_final'' @ ''.docx'') = ''plan.docx''
      \<and> ''12'' \<noteq> [] \<and> list_all is_digit ''12'' \<and> \<not> is_digit (hd ''.docx'')
      \<and> strip_tokens (''plan'' @ ''('' @ ''12'' @ '')'' @ ''.docx'') = ''plan.docx''
      \<and> strip_tokens (''plan'' @ ''_v'' @ ''12'' @ ''.docx'') = ''plan.docx''
      \<and> CHR ''_'' \<notin> set ''plan'' \<and> CHR ''('' \<notin> set ''plan'' \<and> strip_tokens ''plan'' = ''plan''
      \<and> ''docx'' \<in> set extensions \<and> strip_ext (''plan'' @ ''.'' @ ''docx'') = ''plan''
      \<and> CHR ''.'' \<notin> set ''plan'' \<and> strip_ext ''plan'' = ''plan''"
    by code_simp
  show ?thesis
    by (rule conjI [OF remdups_lists_set conjI [OF sample_file_names conjI [OF g ev]]])
qed

text \<open>
  Claim C3. Every entry of the result has at least as many matches counted as items
  listed. The count is the number of all matches of the rule (for Potential Duplicates
  the number of distinct candidates the loop collected); the items are the names of the
  first 10 matches in row order for Very Old Files, of all matches for Empty Folders, 10
  of the distinct candidates for Potential Duplicates, and the names of the first 5
  matches for Large Old Folders.
\<close>

theorem count_and_capped_items:
  assumes "\<forall>xs. set (list_of_set xs) = set xs \<and> distinct (list_of_set xs)"
    and "ai_archive_suggestions list_of_set df = Inr gs"
    and "g \<in> set gs"
  shows "length (items g) \<le> count g
    \<and> (category g = ''Very Old Files'' \<longrightarrow>
         count g = length (filter (\<lambda>r. Age_Category r = ''Very Old (1+ years)''
                                       \<and> Type r = Some ''File'') df)
       \<and> items g = take 10 (map Name (filter (\<lambda>r. Age_Category r = ''Very Old (1+ years)''
                                                   \<and> Type r = Some ''File'') df)))
    \<and> (category g = ''Empty Folders'' \<longrightarrow>
         count g = length (filter (\<lambda>r. Type r = Some ''Folder'' \<and> Content_Count r = Some 0) df)
       \<and> items g = map Name (filter (\<lambda>r. Type r = Some ''Folder''
                                           \<and> Content_Count r = Some 0) df))
    \<and> (category g = ''Potential Duplicates'' \<longrightarrow>
         (\<exists>dc. scan_files Map.empty [] (filter (\<lambda>r. Type r = Some ''File'') df) = Inr dc
            \<and> count g = card (set dc)
            \<and> items g = map Some (take 10 (list_of_set dc))))
    \<and> (category g = ''Large Old Folders'' \<longrightarrow>
         count g = length (filter (\<lambda>r. Type r = Some ''Folder''
                    \<and> Age_Category r \<in> set [''Old (3-12 months)'', ''Very Old (1+ years)'']
                    \<and> (case Content_Count r of None \<Rightarrow> False | Some n \<Rightarrow> n > 10)) df)
       \<and> items g = take 5 (map Name (filter (\<lambda>r. Type r = Some ''Folder''
                    \<and> Age_Category r \<in> set [''Old (3-12 months)'', ''Very Old (1+ years)'']
                    \<and> (case Content_Count r of None \<Rightarrow> False | Some n \<Rightarrow> n > 10)) df)))"
proof -
  from assms(2) obtain s3 where s3: "rule3 list_of_set df = Inr s3"
    and gs: "gs = rule1 df @ rule2 df @ s3 @ rule4 df"
    by (rule ai_archive_suggestions_Inr)
  from s3 obtain dc where
    dc: "scan_files Map.empty [] (filter (\<lambda>r. Type r = Some ''File'') df) = Inr dc"
    by (rule rule3_Inr_scan)
  from rule3_scan [OF dc, of list_of_set] s3
  have s3_eq: "s3 = (if dc = [] then []
          else [\<lparr> category = ''Potential Duplicates'',
                  count = card (set dc),
                  reason = ''Files with similar names that might be duplicates'',
                  confidence = ''Medium'',
                  items = map Some (take 10 (list_of_set dc)) \<rparr>])"
    by simp
  have cap: "length (take 10 (list_of_set dc)) \<le> card (set dc)"
    using capped_listing(1) [OF assms(1), of 10 dc] by simp
  from assms(3) gs consider "g \<in> set (rule1 df)" | "g \<in> set (rule2 df)" | "g \<in> set s3"
    | "g \<in> set (rule4 df)"
    by auto
  then show ?thesis
  proof cases
    case 1
    then show ?thesis
      by (simp add: rule1_eq split: if_splits)
  next
    case 2
    then show ?thesis
      by (simp add: rule2_eq split: if_splits)
  next
    case 3
    with s3_eq have "g = \<lparr> category = ''Potential Duplicates'',
                  count = card (set dc),
                  reason = ''Files with similar names that might be duplicates'',
                  confidence = ''Medium'',
                  items = map Some (take 10 (list_of_set dc)) \<rparr>"
      by (simp split: if_splits)
    with dc cap show ?thesis by simp
  next
    case 4
    then show ?thesis
      by (simp add: rule4_eq split: if_splits)
  qed
qed

theorem count_and_capped_items_witness:
  "(\<forall>xs. set (remdups xs) = set xs \<and> distinct (remdups xs))
   \<and> ai_archive_suggestions remdups sample_frame = Inr sample_suggestions
   \<and> (length (items (sample_suggestions ! 0)) \<le> count (sample_suggestions ! 0)
      \<and> length (items (sample_suggestions ! 1)) \<le> count (sample_suggestions ! 1)
      \<and> length (items (sample_suggestions ! 2)) \<le> count (sample_suggestions ! 2)
      \<and> length (items (sample_suggestions ! 3)) \<le> count (sample_suggestions ! 3))
   \<and> (sample_suggestions ! 0 \<in> set sample_suggestions
      \<and> sample_suggestions ! 1 \<in> set sample_suggestions
      \<and> sample_suggestions ! 2 \<in> set sample_suggestions
      \<and> sample_suggestions ! 3 \<in> set sample_suggestions
      \<and> category (sample_suggestions ! 0) = ''Very Old Files''
      \<and> count (sample_suggestions ! 0) = 1
      \<and> items (sample_suggestions ! 0) = [Some ''plan_final.docx'']
      \<and> category (sample_suggestions ! 1) = ''Empty Folders''
      \<and> count (sample_suggestions ! 1) = 1
      \<and> items (sample_suggestions ! 1) = [Some ''Reports'']
      \<and> category (sample_suggestions ! 2) = ''Potential Duplicates''
      \<and> count (sample_suggestions ! 2) = 2
      \<and> items (sample_suggestions ! 2) = [Some ''plan_final.docx'', Some ''plan_v2.docx'']
      \<and> category (sample_suggestions ! 3) = ''Large Old Folders''
      \<and> count (sample_suggestions ! 3) = 1
      \<and> items (sample_suggestions ! 3) = [Some ''Big''])"
proof -
  have ev: "sample_suggestions ! 0 \<in> set sample_suggestions
      \<and> sample_suggestions ! 1 \<in> set sample_suggestions
      \<and> sample_suggestions ! 2 \<in> set sample_suggestions
      \<and> sample_suggestions ! 3 \<in> set sample_suggestions
      \<and> category (sample_suggestions ! 0) = ''Very Old Files''
      \<and> count (sample_suggestions ! 0) = 1
      \<and> items (sample_suggestions ! 0) = [Some ''plan_final.docx'']
      \<and> category (sample_suggestions ! 1) = ''Empty Folders''
      \<and> count (sample_suggestions ! 1) = 1
      \<and> items (sample_suggestions ! 1) = [Some ''Reports'']
      \<and> category (sample_suggestions ! 2) = ''Potential Duplicates''
      \<and> count (sample_suggestions ! 2) = 2
      \<and> items (sample_suggestions ! 2) = [Some ''plan_final.docx'', Some ''plan_v2.docx'']
      \<and> category (sample_suggestions ! 3) = ''Large Old Folders''
      \<and> count (sample_suggestions ! 3) = 1
      \<and> items (sample_suggestions ! 3) = [Some ''Big'']"
    by code_simp
  note t = count_and_capped_items [OF remdups_lists_set sample_suggestions_run, THEN conjunct1]
  from ev have m: "sample_suggestions ! 0 \<in> set sample_suggestions"
    "sample_suggestions ! 1 \<in> set sample_suggestions"
    "sample_suggestions ! 2 \<in> set sample_suggestions"
    "sample_suggestions ! 3 \<in> set sample_suggestions"
    by blast+
  have le: "length (items (sample_suggestions ! 0)) \<le> count (sample_suggestions ! 0)
      \<and> length (items (sample_suggestions ! 1)) \<le> count (sample_suggestions ! 1)
      \<and> length (items (sample_suggestions ! 2)) \<le> count (sample_suggestions ! 2)
      \<and> length (items (sample_suggestions ! 3)) \<le> count (sample_suggestions ! 3)"
    by (rule conjI [OF t [OF m(1)] conjI [OF t [OF m(2)] conjI [OF t [OF m(3)] t [OF m(4)]]]])
  show ?thesis
    by (rule conjI [OF remdups_lists_set conjI [OF sample_suggestions_run conjI [OF le ev]]])
qed

text \<open>
  The empty frame gives the empty list and no error. For a frame whose files all have a
  name, the result is a list whose categories are, in this order, Very Old Files, Empty
  Folders, Potential Duplicates and Large Old Folders, each present exactly when its rule
  matches: some row is a very old file, some row is an empty folder, two files share a
  name pattern, some row is an old or very old folder with more than 10 items.
\<close>

lemma suggestions_in_rule_order:
  "ai_archive_suggestions list_of_set [] = Inr []
   \<and> (map Name (filter (\<lambda>r. Type r = Some ''File'') df) = map Some names \<longrightarrow>
       (\<exists>gs. ai_archive_suggestions list_of_set df = Inr gs
          \<and> map category gs =
              (if \<exists>r \<in> set df. Age_Category r = ''Very Old (1+ years)'' \<and> Type r = Some ''File''
               then [''Very Old Files''] else [])
            @ (if \<exists>r \<in> set df. Type r = Some ''Folder'' \<and> Content_Count r = Some 0
               then [''Empty Folders''] else [])
            @ (if \<not> distinct (map name_pattern names)
               then [''Potential Duplicates''] else [])
            @ (if \<exists>r \<in> set df. Type r = Some ''Folder''
                    \<and> Age_Category r \<in> set [''Old (3-12 months)'', ''Very Old (1+ years)'']
                    \<and> (case Content_Count r of None \<Rightarrow> False | Some n \<Rightarrow> n > 10)
               then [''Large Old Folders''] else [])))"
proof (intro conjI impI)
  show "ai_archive_suggestions list_of_set [] = Inr []"
    by (simp add: ai_archive_suggestions_def rule1_def rule2_def rule3_def rule4_def)
next
  assume names: "map Name (filter (\<lambda>r. Type r = Some ''File'') df) = map Some names"
  let ?s3 = "if spec_candidates names = [] then []
          else [\<lparr> category = ''Potential Duplicates'',
                  count = card (set (spec_candidates names)),
                  reason = ''Files with similar names that might be duplicates'',
                  confidence = ''Medium'',
                  items = map Some (take 10 (list_of_set (spec_candidates names))) \<rparr>]"
  have r3: "rule3 list_of_set df = Inr ?s3"
    by (rule rule3_spec [OF names])
  then have ai: "ai_archive_suggestions list_of_set df = Inr (rule1 df @ rule2 df @ ?s3 @ rule4 df)"
    by (simp only: ai_archive_suggestions_def sum.case)
  have c3: "map category ?s3 =
      (if \<not> distinct (map name_pattern names) then [''Potential Duplicates''] else [])"
    by (simp add: spec_candidates_empty)
  have "map category (rule1 df @ rule2 df @ ?s3 @ rule4 df)
      = map category (rule1 df) @ map category (rule2 df) @ map category ?s3
        @ map category (rule4 df)"
    by (simp only: map_append)
  with ai show "\<exists>gs. ai_archive_suggestions list_of_set df = Inr gs
          \<and> map category gs =
              (if \<exists>r \<in> set df. Age_Category r = ''Very Old (1+ years)'' \<and> Type r = Some ''File''
               then [''Very Old Files''] else [])
            @ (if \<exists>r \<in> set df. Type r = Some ''Folder'' \<and> Content_Count r = Some 0
               then [''Empty Folders''] else [])
            @ (if \<not> distinct (map name_pattern names)
               then [''Potential Duplicates''] else [])
            @ (if \<exists>r \<in> set df. Type r = Some ''Folder''
                    \<and> Age_Category r \<in> set [''Old (3-12 months)'', ''Very Old (1+ years)'']
                    \<and> (case Content_Count r of None \<Rightarrow> False | Some n \<Rightarrow> n > 10)
               then [''Large Old Folders''] else [])"
    by (simp only: rule1_categories rule2_categories rule4_categories c3 ex_simps simp_thms
        sum.inject)
qed

lemma sample_categories:
  "(if \<exists>r \<in> set sample_frame. Age_Category r = ''Very Old (1+ years)'' \<and> Type r = Some ''File''
    then [''Very Old Files''] else [])
   @ (if \<exists>r \<in> set sample_frame. Type r = Some ''Folder'' \<and> Content_Count r = Some 0
      then [''Empty Folders''] else [])
   @ (if \<not> distinct (map name_pattern sample_names)
      then [''Potential Duplicates''] else [])
   @ (if \<exists>r \<in> set sample_frame. Type r = Some ''Folder''
           \<and> Age_Category r \<in> set [''Old (3-12 months)'', ''Very Old (1+ years)'']
           \<and> (case Content_Count r of None \<Rightarrow> False | Some n \<Rightarrow> n > 10)
      then [''Large Old Folders''] else [])
   = [''Very Old Files'', ''Empty Folders'', ''Potential Duplicates'', ''Large Old Folders'']"
  by code_simp

lemma suggestions_in_rule_order_example:
  "ai_archive_suggestions remdups [] = Inr []
   \<and> map Name (filter (\<lambda>r. Type r = Some ''File'') sample_frame) = map Some sample_names
   \<and> (\<exists>gs. ai_archive_suggestions remdups sample_frame = Inr gs
         \<and> map category gs =
             [''Very Old Files'', ''Empty Folders'', ''Potential Duplicates'',
              ''Large Old Folders''])"
proof -
  note t = suggestions_in_rule_order [of remdups sample_frame sample_names]
  have g: "\<exists>gs. ai_archive_suggestions remdups sample_frame = Inr gs
         \<and> map category gs =
             [''Very Old Files'', ''Empty Folders'', ''Potential Duplicates'',
              ''Large Old Folders'']"
    using t [THEN conjunct2, THEN mp, OF sample_file_names]
    unfolding sample_categories .
  show ?thesis
    by (rule conjI [OF t [THEN conjunct1] conjI [OF sample_file_names g]])
qed

text \<open>
  A file without a name stops the function, whatever the other rows are: \<open>lower\<close> is
  called on the missing value.
\<close>

lemma scan_files_missing_name:
  "None \<in> Name ` set fs \<Longrightarrow> scan_files seen acc fs = Inl AttributeError"
proof (induction fs arbitrary: seen acc)
  case Nil
  then show ?case by simp
next
  case (Cons r fs)
  show ?case
  proof (cases "Name r")
    case None
    then show ?thesis by simp
  next
    case (Some n)
    with Cons.prems have "None \<in> Name ` set fs" by auto
    then have "scan_files seen' acc' fs = Inl AttributeError" for seen' acc'
      by (rule Cons.IH)
    with Some show ?thesis by (simp split: option.splits)
  qed
qed

lemma missing_name_raises:
  assumes "r \<in> set df" and "Type r = Some ''File''" and "Name r = None"
  shows "ai_archive_suggestions list_of_set df = Inl AttributeError"
proof -
  let ?files = "filter (\<lambda>r. Type r = Some ''File'') df"
  from assms have r: "r \<in> set ?files" by simp
  then have "?files \<noteq> []" by (metis empty_iff list.set(1))
  moreover from r assms(3) have "None \<in> Name ` set ?files" by force
  then have "scan_files Map.empty [] ?files = Inl AttributeError"
    by (rule scan_files_missing_name)
  ultimately have "rule3 list_of_set df = Inl AttributeError"
    by (simp add: rule3_def)
  then show ?thesis by (simp add: ai_archive_suggestions_def)
qed

text \<open>
  Claim C8 says that the function returns its groups for every enriched input.
  \<open>load_data\<close> checks no names and returns a frame for a file without a name, and on that
  frame \<open>ai_archive_suggestions\<close> raises AttributeError at line 106, where rule 3 calls
  \<open>row['Name'].lower()\<close>. Line 342 of the source, which searches the names with
  \<open>na=False\<close>, provides for missing names; rule 3 does not.
\<close>

theorem suggestions_fail_on_nameless_file:
  "load_data sample_to_datetime sample_now (Some [nameless_file])
     = Inr (Some [enrich sample_parse sample_now nameless_file])
   \<and> Type (enrich sample_parse sample_now nameless_file) = Some ''File''
   \<and> Name (enrich sample_parse sample_now nameless_file) = None
   \<and> ai_archive_suggestions remdups [enrich sample_parse sample_now nameless_file]
     = Inl AttributeError"
  by code_simp

end
